theory Spec2Isabelle
  imports Main
begin

section \<open>Strings\<close>

text \<open>
  A Python \<open>str\<close> is modelled as a \<open>string\<close>; a \<open>char\<close> stands for a code point
  below 256 (Latin-1). Code points above 255 are outside the model.
\<close>

definition squote :: char where "squote = CHR 0x27"
definition dquote :: char where "dquote = CHR 0x22"
definition backslash :: char where "backslash = CHR 0x5C"
definition newline :: char where "newline = CHR 0x0A"
definition carriage :: char where "carriage = CHR 0x0D"

definition SPACE :: string where "SPACE = '' ''"
definition RED :: string where "RED = [CHR 0x1B, CHR ''['', CHR ''3'', CHR ''1'', CHR ''m'']"
definition RESET :: string where "RESET = [CHR 0x1B, CHR ''['', CHR ''0'', CHR ''m'']"

text \<open>\<open>str.isspace\<close> of one character, for the code points below 256.\<close>

definition isspace :: "char \<Rightarrow> bool" where
  "isspace ch =
     (let n = (of_char ch :: nat)
      in (9 \<le> n \<and> n \<le> 13) \<or> (28 \<le> n \<and> n \<le> 32) \<or> n = 133 \<or> n = 160)"

text \<open>\<open>sep.join(xs)\<close>.\<close>

fun join :: "string \<Rightarrow> string list \<Rightarrow> string" where
  "join sep [] = []"
| "join sep [x] = x"
| "join sep (x # y # ys) = x @ sep @ join sep (y # ys)"

text \<open>\<open>s.strip()\<close>.\<close>

definition strip :: "string \<Rightarrow> string" where
  "strip s = rev (dropWhile isspace (rev (dropWhile isspace s)))"

text \<open>\<open>sub in s\<close> for strings.\<close>

fun contains :: "string \<Rightarrow> string \<Rightarrow> bool" where
  "contains sub [] = (sub = [])"
| "contains sub (c # cs) = (take (length sub) (c # cs) = sub \<or> contains sub cs)"

text \<open>\<open>s.split(sep)\<close> for a separator of one element; also used on token lists.\<close>

fun split_on :: "'a \<Rightarrow> 'a list \<Rightarrow> 'a list list" where
  "split_on sep [] = [[]]"
| "split_on sep (x # xs) =
     (if x = sep then [] # split_on sep xs
      else (case split_on sep xs of g # gs \<Rightarrow> (x # g) # gs | [] \<Rightarrow> [[x]]))"

text \<open>
  \<open>s.replace(old, new)\<close> where \<open>old\<close> is the two characters \<open>a b\<close>: occurrences are
  replaced from the left, without overlap.
\<close>

fun replace2 :: "char \<Rightarrow> char \<Rightarrow> string \<Rightarrow> string \<Rightarrow> string" where
  "replace2 a b new (x # y # r) =
     (if x = a \<and> y = b then new @ replace2 a b new r else x # replace2 a b new (y # r))"
| "replace2 a b new r = r"

text \<open>The lines of a text as iterating over a text file yields them, each with its newline.\<close>

fun lines_keep :: "string \<Rightarrow> string list" where
  "lines_keep [] = []"
| "lines_keep (c # cs) =
     (if c = newline then [c] # lines_keep cs
      else (case lines_keep cs of [] \<Rightarrow> [[c]] | l # ls \<Rightarrow> (c # l) # ls))"

text \<open>
  What reading in text mode with \<open>newline=None\<close> (universal newlines) makes of the stored
  text: \<open>\r\n\<close> and a lone \<open>\r\<close> are read as \<open>\n\<close>. This is how \<open>open(path, 'r')\<close>,
  \<open>tempfile.TemporaryFile(mode='w+')\<close> and the pipe of \<open>subprocess.Popen(text=True)\<close> read.
\<close>

fun universal_newlines :: "string \<Rightarrow> string" where
  "universal_newlines [] = []"
| "universal_newlines [c] = (if c = carriage then [newline] else [c])"
| "universal_newlines (c # d # r) =
     (if c = carriage then
        (if d = newline then newline # universal_newlines r
         else newline # universal_newlines (d # r))
      else c # universal_newlines (d # r))"

section \<open>CommandParser\<close>

text \<open>
  \<open>CommandParser.tokenize\<close>: the \<open>while i < n\<close> loop as a recursion on the characters
  from position \<open>i\<close> on, with the loop's variables \<open>in_single\<close>, \<open>in_double\<close>, \<open>cur\<close> and
  \<open>args\<close>.
\<close>

fun tokenize_loop :: "string \<Rightarrow> bool \<Rightarrow> bool \<Rightarrow> string \<Rightarrow> string list \<Rightarrow> string list" where
  "tokenize_loop [] in_single in_double cur args = (if cur \<noteq> [] then args @ [cur] else args)"
| "tokenize_loop (ch # rest) in_single in_double cur args =
     (if in_single then
        (if ch = squote then tokenize_loop rest False in_double cur args
         else tokenize_loop rest in_single in_double (cur @ [ch]) args)
      else if in_double then
        (if ch = dquote then tokenize_loop rest in_single False cur args
         else if ch = backslash then
           (case rest of
              nxt # rest' \<Rightarrow>
                (if nxt \<in> set [dquote, backslash, CHR ''$'', CHR 0x60, newline]
                 then tokenize_loop rest' in_single in_double (cur @ [nxt]) args
                 else tokenize_loop rest in_single in_double (cur @ [ch]) args)
            | [] \<Rightarrow> tokenize_loop rest in_single in_double (cur @ [ch]) args)
         else tokenize_loop rest in_single in_double (cur @ [ch]) args)
      else if ch = squote then tokenize_loop rest True in_double cur args
      else if ch = dquote then tokenize_loop rest in_single True cur args
      else if ch = backslash then
        (case rest of
           c # rest' \<Rightarrow> tokenize_loop rest' in_single in_double (cur @ [c]) args
         | [] \<Rightarrow> tokenize_loop [] in_single in_double cur args)
      else if isspace ch then
        (if cur \<noteq> [] then tokenize_loop rest in_single in_double [] (args @ [cur])
         else tokenize_loop rest in_single in_double cur args)
      else tokenize_loop rest in_single in_double (cur @ [ch]) args)"

definition tokenize :: "string \<Rightarrow> string list" where
  "tokenize line = tokenize_loop line False False [] []"

text \<open>\<open>CommandParser.split_pipeline\<close>: the \<open>for token in tokens\<close> loop, then the function.\<close>

fun split_loop :: "string list \<Rightarrow> string list \<Rightarrow> string list list \<Rightarrow> string list list" where
  "split_loop [] current_cmd commands =
     (if current_cmd \<noteq> [] then commands @ [current_cmd] else commands)"
| "split_loop (token # rest) current_cmd commands =
     (if token = ''|''
      then split_loop rest [] (if current_cmd \<noteq> [] then commands @ [current_cmd] else commands)
      else split_loop rest (current_cmd @ [token]) commands)"

definition split_pipeline :: "string list \<Rightarrow> string list list option" where
  "split_pipeline tokens =
     (if ''|'' \<notin> set tokens then None else Some (split_loop tokens [] []))"

text \<open>
  The words of a line that has neither quotes nor backslashes, as the claim about
  re-tokenizing reads them: maximal runs of characters that are not whitespace.
\<close>

fun words_from :: "string \<Rightarrow> string \<Rightarrow> string list" where
  "words_from cur [] = (if cur \<noteq> [] then [cur] else [])"
| "words_from cur (c # cs) =
     (if isspace c then (if cur \<noteq> [] then cur # words_from [] cs else words_from [] cs)
      else words_from (cur @ [c]) cs)"

definition plain :: "string \<Rightarrow> bool" where
  "plain s = (squote \<notin> set s \<and> dquote \<notin> set s \<and> backslash \<notin> set s)"

text \<open>A token of such a line: not empty, and without whitespace.\<close>

definition word :: "string \<Rightarrow> bool" where
  "word t = (t \<noteq> [] \<and> (\<forall>c\<in>set t. \<not> isspace c))"

section \<open>Exceptions\<close>

text \<open>
  What a Python call can raise. \<open>Error m\<close> is an instance of \<open>Exception\<close> whose \<open>str\<close> is
  \<open>m\<close>; \<open>SystemExit\<close> and \<open>KeyboardInterrupt\<close> derive from \<open>BaseException\<close> only, so
  \<open>except Exception\<close> lets them pass and a bare \<open>except:\<close> catches them.
\<close>

datatype exc = SystemExit int | KeyboardInterrupt | Error string

fun is_Exception :: "exc \<Rightarrow> bool" where
  "is_Exception (Error m) = True"
| "is_Exception e = False"

fun exc_str :: "exc \<Rightarrow> string" where
  "exc_str (Error m) = m"
| "exc_str e = []"

text \<open>
  \<open>try: body except: handler\<close> where the handler raises: \<open>body\<close> is what the body raises
  (\<open>None\<close> when it returns), the result is what leaves the statement.
\<close>

definition try_except_all :: "exc option \<Rightarrow> exc \<Rightarrow> exc option" where
  "try_except_all body handler = (case body of None \<Rightarrow> None | Some e \<Rightarrow> Some handler)"

text \<open>\<open>repr\<close> of a string, and \<open>int\<close> of a string (base 10).\<close>

definition hexdigit :: "nat \<Rightarrow> char" where
  "hexdigit n = ''0123456789abcdef'' ! (n mod 16)"

definition repr_char :: "char \<Rightarrow> char \<Rightarrow> string" where
  "repr_char q c =
     (let n = (of_char c :: nat)
      in if c = q \<or> c = backslash then [backslash, c]
         else if n = 9 then [backslash, CHR ''t'']
         else if n = 10 then [backslash, CHR ''n'']
         else if n = 13 then [backslash, CHR ''r'']
         else if n < 32 \<or> (127 \<le> n \<and> n \<le> 160) \<or> n = 173
           then [backslash, CHR ''x'', hexdigit (n div 16), hexdigit n]
         else [c])"

definition py_repr :: "string \<Rightarrow> string" where
  "py_repr s =
     (let q = (if squote \<in> set s \<and> dquote \<notin> set s then dquote else squote)
      in [q] @ concat (map (repr_char q) s) @ [q])"

definition is_digit :: "char \<Rightarrow> bool" where
  "is_digit c = (48 \<le> (of_char c :: nat) \<and> (of_char c :: nat) \<le> 57)"

fun parse_digits :: "string \<Rightarrow> nat \<Rightarrow> bool \<Rightarrow> nat option" where
  "parse_digits [] acc prev_digit = (if prev_digit then Some acc else None)"
| "parse_digits (c # cs) acc prev_digit =
     (if is_digit c then parse_digits cs (acc * 10 + (of_char c - 48)) True
      else if c = CHR ''_'' \<and> prev_digit then parse_digits cs acc False
      else None)"

text \<open>
  The characters \<open>int\<close> skips at both ends of its argument: the whitespace of C
  (\<open>\t \n \v \f \r\<close> and the space), and the whitespace beyond ASCII, which \<open>int\<close> first
  turns into spaces. The separators \<open>0x1c\<close> to \<open>0x1f\<close>, which \<open>str.strip\<close> removes, are not
  among them.
\<close>

definition int_space :: "char \<Rightarrow> bool" where
  "int_space ch =
     (let n = (of_char ch :: nat)
      in (9 \<le> n \<and> n \<le> 13) \<or> n = 32 \<or> n = 133 \<or> n = 160)"

definition py_int :: "string \<Rightarrow> exc + int" where
  "py_int s =
     (let t = rev (dropWhile int_space (rev (dropWhile int_space s)));
          neg = (t \<noteq> [] \<and> hd t = CHR ''-'');
          body = (if t \<noteq> [] \<and> (hd t = CHR ''-'' \<or> hd t = CHR ''+'') then tl t else t)
      in case parse_digits body 0 False of
           None \<Rightarrow>
             Inl (Error (''invalid literal for int() with base 10: '' @ take 200 (py_repr s)))
         | Some n \<Rightarrow> Inr (if neg then - int n else int n))"

section \<open>The operating system and the interpreter's streams\<close>

text \<open>
  What the built-ins and the executor reach of the operating system. Paths are keys as
  written (no normalisation, no working directory); \<open>files\<close> holds the regular files
  with their content as stored (a character stands for itself; encoding is not
  modelled), \<open>oserror p\<close> is the \<open>str\<close> of the
  exception that \<open>open\<close> raises on a path \<open>p\<close> it cannot open, \<open>unwritable\<close> the paths
  that \<open>open\<close> refuses in the modes \<open>'w'\<close> and \<open>'a'\<close>. \<open>histfile\<close> and \<open>path_env\<close> are the
  environment variables \<open>HISTFILE\<close> and \<open>PATH\<close> (unset reads as \<open>''\<close>); \<open>history\<close> and
  \<open>written_count\<close> are the fields of \<open>HistoryManager\<close>. The platform is POSIX.
\<close>

record env =
  files :: "string \<rightharpoonup> string"
  oserror :: "string \<Rightarrow> string"
  unwritable :: "string set"
  histfile :: "string option"
  path_env :: string
  history :: "string list"
  written_count :: nat

text \<open>
  A stream object: the three console streams the interpreter starts with, or an object
  made later, named by its index in \<open>objs\<close>. An object is a file opened by \<open>open\<close>, a
  \<open>tempfile.TemporaryFile\<close>, or the \<open>stdout\<close> pipe of a spawned process.

  For a file opened by \<open>open\<close>, \<open>f_append\<close> says whether the mode is \<open>'a'\<close>, \<open>f_buf\<close> is the
  text written through the Python object and not yet flushed to the file, and \<open>f_pos\<close> is
  the offset of its descriptor in the file. For a temporary file and for a pipe, \<open>f_buf\<close>
  is the content and \<open>f_pos\<close> the position of the next read.
\<close>

datatype stream = Console_in | Console_out | Console_err | Obj nat

datatype kind = File string | Temp | Pipe

record fobj =
  f_kind :: kind
  f_append :: bool
  f_buf :: string
  f_pos :: nat
  f_closed :: bool

text \<open>The invocations the executor makes, in order, each with the input text it is given.\<close>

datatype call =
  Builtin_call string "string list" string
| Process_call string "string list" string

record world =
  sys_stdin :: stream
  sys_stdout :: stream
  sys_stderr :: stream
  objs :: "fobj list"
  console_in :: string
  console_out :: string
  console_err :: string
  os :: env
  calls :: "call list"

text \<open>
  A write on the descriptor of a file object, as a flush of the Python object or a
  process that was given the descriptor does it: in mode \<open>'a'\<close> at the end of the file,
  otherwise at the offset of the descriptor, over what is there, and the offset moves on.
  Writing nothing changes nothing.
\<close>

definition write_at :: "nat \<Rightarrow> string \<Rightarrow> string \<Rightarrow> string" where
  "write_at pos s old =
     take pos (old @ replicate (pos - length old) (CHR 0x00)) @ s @ drop (pos + length s) old"

definition fd_write :: "nat \<Rightarrow> string \<Rightarrow> world \<Rightarrow> world" where
  "fd_write k s w =
     (if k < length (objs w) \<and> s \<noteq> [] then
        (case f_kind (objs w ! k) of
           File p \<Rightarrow>
             (let old = (case files (os w) p of Some c \<Rightarrow> c | None \<Rightarrow> []);
                  pos = (if f_append (objs w ! k) then length old else f_pos (objs w ! k))
              in w\<lparr>os := (os w)\<lparr>files := (files (os w))(p \<mapsto> write_at pos s old)\<rparr>,
                   objs := (objs w)[k := (objs w ! k)\<lparr>f_pos := pos + length s\<rparr>]\<rparr>)
         | Temp \<Rightarrow> w
         | Pipe \<Rightarrow> w)
      else w)"

text \<open>
  Writing text to a stream through its Python object (\<open>print\<close>). The text for a file
  object waits in the object's buffer until the object is closed (Python also flushes a
  buffer that fills, at 8192 characters, which the model does not). Writing to a stream
  that is closed or not writable would raise in Python; the executor never binds one, and
  the model drops the text.
\<close>

fun deliver :: "stream \<Rightarrow> string \<Rightarrow> world \<Rightarrow> world" where
  "deliver Console_out s w = w\<lparr>console_out := console_out w @ s\<rparr>"
| "deliver Console_err s w = w\<lparr>console_err := console_err w @ s\<rparr>"
| "deliver Console_in s w = w"
| "deliver (Obj k) s w =
     (if k < length (objs w) \<and> \<not> f_closed (objs w ! k) then
        (case f_kind (objs w ! k) of
           File p \<Rightarrow>
             w\<lparr>objs := (objs w)[k := (objs w ! k)\<lparr>f_buf := f_buf (objs w ! k) @ s\<rparr>]\<rparr>
         | Temp \<Rightarrow>
             w\<lparr>objs := (objs w)[k := (objs w ! k)\<lparr>
                  f_buf := f_buf (objs w ! k) @ s,
                  f_pos := length (f_buf (objs w ! k) @ s)\<rparr>]\<rparr>
         | Pipe \<Rightarrow> w)
      else w)"

text \<open>
  What a spawned process writes on a stream it was given or inherited: on the console, or
  on the descriptor of a file object, at once.
\<close>

fun fd_deliver :: "stream \<Rightarrow> string \<Rightarrow> world \<Rightarrow> world" where
  "fd_deliver Console_out s w = w\<lparr>console_out := console_out w @ s\<rparr>"
| "fd_deliver Console_err s w = w\<lparr>console_err := console_err w @ s\<rparr>"
| "fd_deliver Console_in s w = w"
| "fd_deliver (Obj k) s w = fd_write k s w"

text \<open>
  What is left to read on a stream, from its position to its end: \<open>stream_raw\<close> as a
  process reading the descriptor gets it, \<open>stream_text\<close> as Python code reading the stream
  object gets it. A temporary file and a pipe are read in text mode with universal
  newlines; the console's \<open>sys.stdin\<close> has \<open>newline='\n'\<close> on POSIX and translates nothing.
\<close>

fun stream_raw :: "stream \<Rightarrow> world \<Rightarrow> string" where
  "stream_raw Console_in w = console_in w"
| "stream_raw (Obj k) w =
     (if k < length (objs w) \<and> \<not> f_closed (objs w ! k) then
        (case f_kind (objs w ! k) of
           File p \<Rightarrow> []
         | Temp \<Rightarrow> drop (f_pos (objs w ! k)) (f_buf (objs w ! k))
         | Pipe \<Rightarrow> drop (f_pos (objs w ! k)) (f_buf (objs w ! k)))
      else [])"
| "stream_raw s w = []"

fun stream_text :: "stream \<Rightarrow> world \<Rightarrow> string" where
  "stream_text Console_in w = console_in w"
| "stream_text (Obj k) w = universal_newlines (stream_raw (Obj k) w)"
| "stream_text s w = []"

text \<open>\<open>open(path, mode)\<close> for the modes \<open>'w'\<close> (\<open>appending = False\<close>) and \<open>'a'\<close>.\<close>

definition open_write :: "string \<Rightarrow> bool \<Rightarrow> world \<Rightarrow> exc + (stream \<times> world)" where
  "open_write path appending w =
     (if path \<in> unwritable (os w) then Inl (Error (oserror (os w) path))
      else Inr (Obj (length (objs w)),
             w\<lparr>objs := objs w @
                 [\<lparr>f_kind = File path, f_append = appending, f_buf = [], f_pos = 0,
                   f_closed = False\<rparr>],
               os := (os w)\<lparr>files := (files (os w))
                 (path \<mapsto> (case files (os w) path of
                              Some c \<Rightarrow> if appending then c else []
                            | None \<Rightarrow> []))\<rparr>\<rparr>))"

text \<open>\<open>open(path, 'r').read()\<close>.\<close>

definition read_file :: "env \<Rightarrow> string \<Rightarrow> string + string" where
  "read_file e path =
     (case files e path of Some c \<Rightarrow> Inr (universal_newlines c) | None \<Rightarrow> Inl (oserror e path))"

text \<open>
  \<open>tempfile.TemporaryFile(mode='w+')\<close>, \<open>f.seek(0)\<close> and \<open>f.close()\<close>. Closing a file object
  flushes its buffer to the file first; closing a closed object does nothing. A file
  object that is never closed keeps its buffer in the model (Python flushes it when the
  interpreter ends).
\<close>

definition temporary_file :: "world \<Rightarrow> stream \<times> world" where
  "temporary_file w =
     (Obj (length (objs w)),
      w\<lparr>objs := objs w @
          [\<lparr>f_kind = Temp, f_append = False, f_buf = [], f_pos = 0, f_closed = False\<rparr>]\<rparr>)"

fun seek0 :: "stream \<Rightarrow> world \<Rightarrow> world" where
  "seek0 (Obj k) w =
     (if k < length (objs w) then w\<lparr>objs := (objs w)[k := (objs w ! k)\<lparr>f_pos := 0\<rparr>]\<rparr> else w)"
| "seek0 s w = w"

definition flush :: "nat \<Rightarrow> world \<Rightarrow> world" where
  "flush k w =
     (case f_kind (objs w ! k) of
        File p \<Rightarrow>
          (let w' = fd_write k (f_buf (objs w ! k)) w
           in w'\<lparr>objs := (objs w')[k := (objs w' ! k)\<lparr>f_buf := []\<rparr>]\<rparr>)
      | Temp \<Rightarrow> w
      | Pipe \<Rightarrow> w)"

fun close :: "stream \<Rightarrow> world \<Rightarrow> world" where
  "close (Obj k) w =
     (if k < length (objs w) \<and> \<not> f_closed (objs w ! k) then
        (let w' = flush k w
         in w'\<lparr>objs := (objs w')[k := (objs w' ! k)\<lparr>f_closed := True\<rparr>]\<rparr>)
      else w)"
| "close s w = w"

text \<open>\<open>print_error(message)\<close> with \<open>file=None\<close>: the stream is \<open>sys.stderr\<close> as bound now.\<close>

definition error_line :: "string \<Rightarrow> string" where
  "error_line message = RED @ message @ RESET @ [newline]"

definition print_error :: "string \<Rightarrow> world \<Rightarrow> world" where
  "print_error message w = deliver (sys_stderr w) (error_line message) w"

section \<open>HistoryManager and BuiltinHandler\<close>

text \<open>
  \<open>HistoryManager.save\<close>. An \<open>open\<close> that fails is the only exception modelled; the
  \<open>except Exception: pass\<close> leaves the state as it was.
\<close>

definition save :: "env \<Rightarrow> env" where
  "save e =
     (case histfile e of
        None \<Rightarrow> e
      | Some path \<Rightarrow>
          if path = [] then e
          else if path \<in> unwritable e then e
          else e\<lparr>files := (files e)
                   (path \<mapsto> (case files e path of Some c \<Rightarrow> c | None \<Rightarrow> []) @
                      concat (map (\<lambda>h. h @ [newline]) (drop (written_count e) (history e)))),
                 written_count := length (history e)\<rparr>)"

text \<open>
  A built-in command, as the executor sees it: from its arguments, the text it can read
  on \<open>sys.stdin\<close> and the operating system, the text it prints on \<open>sys.stdout\<close>, the
  text it prints on \<open>sys.stderr\<close>, the exception that leaves it (if any) and the
  operating system afterwards. No built-in of the source assigns \<open>sys.stdin\<close>,
  \<open>sys.stdout\<close> or \<open>sys.stderr\<close>, and the type has no place for it.
\<close>

record bres =
  b_out :: string
  b_err :: string
  b_raised :: "exc option"
  b_env :: env

type_synonym builtin = "string list \<Rightarrow> string \<Rightarrow> env \<Rightarrow> bres"

text \<open>\<open>BuiltinHandler.cmd_exit\<close>; \<open>sys.exit(code)\<close> raises \<open>SystemExit(code)\<close>.\<close>

definition sys_exit :: "int \<Rightarrow> exc" where
  "sys_exit code = SystemExit code"

definition cmd_exit :: builtin where
  "cmd_exit args inp e =
     \<lparr>b_out = [], b_err = [],
      b_raised =
        (if args = [] then Some (sys_exit 0)
         else try_except_all
                (case py_int (hd args) of Inl err \<Rightarrow> Some err | Inr code \<Rightarrow> Some (sys_exit code))
                (sys_exit 0)),
      b_env = save e\<rparr>"

text \<open>\<open>BuiltinHandler.cmd_echo\<close>.\<close>

definition cmd_echo :: builtin where
  "cmd_echo args inp e =
     (let interpret_escapes = (args \<noteq> [] \<and> hd args = ''-e'');
          args' = (if interpret_escapes then tl args else args);
          output = join SPACE args';
          output' =
            (if interpret_escapes
             then replace2 backslash backslash [backslash]
                    (replace2 backslash (CHR ''t'') [CHR 0x09]
                       (replace2 backslash (CHR ''n'') [newline] output))
             else output)
      in \<lparr>b_out = output' @ [newline], b_err = [], b_raised = None, b_env = e\<rparr>)"

text \<open>\<open>BuiltinHandler.cmd_cat\<close>: the pair is what the loop prints on the two streams.\<close>

fun cat_loop :: "env \<Rightarrow> string list \<Rightarrow> string \<times> string" where
  "cat_loop e [] = ([], [])"
| "cat_loop e (fname # rest) =
     (case read_file e fname of
        Inr c \<Rightarrow> (c @ fst (cat_loop e rest), snd (cat_loop e rest))
      | Inl m \<Rightarrow> (fst (cat_loop e rest), error_line (''cat: '' @ m) @ snd (cat_loop e rest)))"

definition cmd_cat :: builtin where
  "cmd_cat args inp e =
     \<lparr>b_out = fst (cat_loop e args), b_err = snd (cat_loop e args), b_raised = None, b_env = e\<rparr>"

text \<open>\<open>BuiltinHandler.cmd_grep\<close>.\<close>

definition matching :: "string \<Rightarrow> string \<Rightarrow> string" where
  "matching pattern text = concat (filter (contains pattern) (lines_keep text))"

fun grep_loop :: "env \<Rightarrow> string \<Rightarrow> string list \<Rightarrow> string \<times> string" where
  "grep_loop e pattern [] = ([], [])"
| "grep_loop e pattern (filename # rest) =
     (case read_file e filename of
        Inr c \<Rightarrow> (matching pattern c @ fst (grep_loop e pattern rest), snd (grep_loop e pattern rest))
      | Inl m \<Rightarrow> (fst (grep_loop e pattern rest),
                 error_line (''grep: '' @ filename @ '': '' @ m) @ snd (grep_loop e pattern rest)))"

definition cmd_grep :: builtin where
  "cmd_grep args inp e =
     (if args = [] then
        \<lparr>b_out = [], b_err = error_line ''grep: missing search pattern'', b_raised = None, b_env = e\<rparr>
      else if tl args \<noteq> [] then
        \<lparr>b_out = fst (grep_loop e (hd args) (tl args)), b_err = snd (grep_loop e (hd args) (tl args)),
         b_raised = None, b_env = e\<rparr>
      else \<lparr>b_out = matching (hd args) inp, b_err = [], b_raised = None, b_env = e\<rparr>)"

text \<open>
  The seven built-ins whose work is done by operating system services this development
  does not model (\<open>os.getcwd\<close>, \<open>os.chdir\<close>, \<open>os.listdir\<close>, \<open>webbrowser\<close>, number
  formatting); the registry takes them as a parameter.
\<close>

record others =
  cmd_pwd :: builtin
  cmd_cd :: builtin
  cmd_type :: builtin
  cmd_history :: builtin
  cmd_search :: builtin
  cmd_ls :: builtin
  cmd_wc :: builtin

type_synonym registry = "string \<rightharpoonup> builtin"

definition registry :: "others \<Rightarrow> registry" where
  "registry u =
     [''exit'' \<mapsto> cmd_exit, ''echo'' \<mapsto> cmd_echo, ''pwd'' \<mapsto> cmd_pwd u, ''cd'' \<mapsto> cmd_cd u,
      ''type'' \<mapsto> cmd_type u, ''history'' \<mapsto> cmd_history u, ''search'' \<mapsto> cmd_search u,
      ''ls'' \<mapsto> cmd_ls u, ''cat'' \<mapsto> cmd_cat, ''grep'' \<mapsto> cmd_grep, ''wc'' \<mapsto> cmd_wc u]"

definition is_builtin :: "registry \<Rightarrow> string \<Rightarrow> bool" where
  "is_builtin reg name = (reg name \<noteq> None)"

text \<open>
  \<open>BuiltinHandler.execute\<close>, run in the world: the built-in reads \<open>sys.stdin\<close> and prints
  on \<open>sys.stdout\<close> and \<open>sys.stderr\<close> as they are bound when it is called. The result is the
  world and the exception that leaves the call. How far the built-in advanced its input
  stream is not recorded.
\<close>

definition execute :: "registry \<Rightarrow> string \<Rightarrow> string list \<Rightarrow> world \<Rightarrow> world \<times> exc option" where
  "execute reg name args w =
     (case reg name of
        None \<Rightarrow> (w, None)
      | Some b \<Rightarrow>
          (let inp = stream_text (sys_stdin w) w;
               r = b args inp (os w);
               w1 = w\<lparr>os := b_env r, calls := calls w @ [Builtin_call name args inp]\<rparr>;
               w2 = deliver (sys_stdout w) (b_out r) w1;
               w3 = deliver (sys_stderr w) (b_err r) w2
           in (w3, b_raised r)))"

section \<open>Executor\<close>

text \<open>\<open>os.path.isabs\<close>, \<open>os.path.dirname\<close>, \<open>os.path.join\<close> and \<open>os.path.isfile\<close> (posixpath).\<close>

definition isabs :: "string \<Rightarrow> bool" where
  "isabs p = (p \<noteq> [] \<and> hd p = CHR ''/'')"

definition dirname :: "string \<Rightarrow> string" where
  "dirname p =
     (let i = length p - length (takeWhile (\<lambda>c. c \<noteq> CHR ''/'') (rev p));
          head = take i p
      in if head \<noteq> [] \<and> head \<noteq> replicate (length head) (CHR ''/'')
         then rev (dropWhile (\<lambda>c. c = CHR ''/'') (rev head)) else head)"

definition path_join :: "string \<Rightarrow> string \<Rightarrow> string" where
  "path_join d name =
     (if isabs name then name
      else if d = [] \<or> last d = CHR ''/'' then d @ name
      else d @ ''/'' @ name)"

definition isfile :: "env \<Rightarrow> string \<Rightarrow> bool" where
  "isfile e p = (files e p \<noteq> None)"

text \<open>
  \<open>Executor.find_executable\<close>: the loop over the directories of \<open>PATH\<close>, then the function.
  On POSIX \<open>sys.platform\<close> is not \<open>win32\<close>, so the test for \<open>full + ".exe"\<close> never applies.
\<close>

fun search_path :: "env \<Rightarrow> string list \<Rightarrow> string \<Rightarrow> string option" where
  "search_path e [] name = None"
| "search_path e (d # ds) name =
     (if isfile e (path_join d name) then Some (path_join d name) else search_path e ds name)"

definition find_executable :: "env \<Rightarrow> string \<Rightarrow> string option" where
  "find_executable e name =
     (if (isabs name \<or> dirname name \<noteq> []) \<and> isfile e name then Some name
      else search_path e (split_on (CHR '':'') (path_env e)) name)"

text \<open>
  \<open>Executor.parse_redirections\<close>. \<open>first_present\<close> is the \<open>for op in (...)\<close> loop up to its
  \<open>break\<close>: the first operator of the tuple that is in the token list. \<open>index_of\<close> is
  \<open>list.index\<close>, called only for an element of the list. \<open>resolve_class\<close> is one of the
  two loops: it gives the exception of a failing \<open>open\<close>, or the token list, the opened
  file and the world.
\<close>

fun first_present :: "string list \<Rightarrow> string list \<Rightarrow> string option" where
  "first_present [] clean_tokens = None"
| "first_present (op # ops) clean_tokens =
     (if op \<in> set clean_tokens then Some op else first_present ops clean_tokens)"

fun index_of :: "'a list \<Rightarrow> 'a \<Rightarrow> nat" where
  "index_of [] x = 0"
| "index_of (y # ys) x = (if y = x then 0 else Suc (index_of ys x))"

definition resolve_class ::
  "string list \<Rightarrow> string list \<Rightarrow> world \<Rightarrow> exc + (string list \<times> stream option \<times> world)" where
  "resolve_class ops clean_tokens w =
     (case first_present ops clean_tokens of
        None \<Rightarrow> Inr (clean_tokens, None, w)
      | Some op \<Rightarrow>
          (let idx = index_of clean_tokens op
           in if idx + 1 < length clean_tokens then
                (case open_write (clean_tokens ! (idx + 1)) (contains ''>>'' op) w of
                   Inl e \<Rightarrow> Inl e
                 | Inr (f, w') \<Rightarrow>
                     Inr (take idx clean_tokens @ drop (idx + 2) clean_tokens, Some f, w'))
              else Inr (clean_tokens, None, w)))"

definition stderr_ops :: "string list" where
  "stderr_ops = [''2>>'', ''2>'']"

definition stdout_ops :: "string list" where
  "stdout_ops = [''1>>'', ''>>'', ''1>'', ''>'']"

record redirections =
  clean_tokens :: "string list"
  stdout_dest :: "stream option"
  stderr_dest :: "stream option"
  file_out :: "stream option"
  file_err :: "stream option"

definition parse_redirections :: "string list \<Rightarrow> world \<Rightarrow> redirections option \<times> world" where
  "parse_redirections tokens w =
     (case resolve_class stderr_ops tokens w of
        Inl e \<Rightarrow> (None, print_error (''Redirection error: '' @ exc_str e) w)
      | Inr (tokens1, ferr, w1) \<Rightarrow>
          (case resolve_class stdout_ops tokens1 w1 of
             Inl e \<Rightarrow> (None, print_error (''Redirection error: '' @ exc_str e) w1)
           | Inr (tokens2, fout, w2) \<Rightarrow>
               (Some \<lparr>clean_tokens = tokens2, stdout_dest = fout, stderr_dest = ferr,
                      file_out = fout, file_err = ferr\<rparr>, w2)))"

text \<open>
  An external program, as the executor sees it: from the executable, the argument vector,
  the text on its standard input and the operating system, either the exception that
  \<open>subprocess.run\<close> or \<open>subprocess.Popen\<close> raises, or what the process writes on its
  standard output and error and the operating system afterwards. A spawned process is
  taken to have run to its end; how processes overlap in time is not modelled.
\<close>

record pres =
  p_out :: string
  p_err :: string
  p_env :: env

type_synonym program = "string \<Rightarrow> string list \<Rightarrow> string \<Rightarrow> env \<Rightarrow> exc + pres"

text \<open>\<open>if f: f.close()\<close>, and the stream a process inherits where none is given.\<close>

fun close_opt :: "stream option \<Rightarrow> world \<Rightarrow> world" where
  "close_opt None w = w"
| "close_opt (Some f) w = close f w"

fun or_else :: "stream option \<Rightarrow> stream \<Rightarrow> stream" where
  "or_else None d = d"
| "or_else (Some s) d = s"

fun rebind_stdout :: "stream option \<Rightarrow> world \<Rightarrow> world" where
  "rebind_stdout None w = w"
| "rebind_stdout (Some s) w = w\<lparr>sys_stdout := s\<rparr>"

fun rebind_stderr :: "stream option \<Rightarrow> world \<Rightarrow> world" where
  "rebind_stderr None w = w"
| "rebind_stderr (Some s) w = w\<lparr>sys_stderr := s\<rparr>"

fun rebind_stdin :: "stream option \<Rightarrow> world \<Rightarrow> world" where
  "rebind_stdin None w = w"
| "rebind_stdin (Some s) w = w\<lparr>sys_stdin := s\<rparr>"

text \<open>
  \<open>except Exception as e: print_error(prefix + str(e))\<close> after a call that raised
  \<open>raised\<close>: an \<open>Exception\<close> is reported, anything else is left to propagate.
\<close>

fun report :: "string \<Rightarrow> exc option \<Rightarrow> world \<Rightarrow> world" where
  "report prefix (Some (Error m)) w = print_error (prefix @ m) w"
| "report prefix r w = w"

fun propagates :: "exc option \<Rightarrow> exc option" where
  "propagates (Some (Error m)) = None"
| "propagates r = r"

text \<open>
  \<open>Executor.run_single_command\<close>. The result is the world and the exception that leaves
  the function (\<open>tokens[0]\<close> of an empty list raises \<open>IndexError\<close>).
\<close>

definition run_single_command ::
  "registry \<Rightarrow> program \<Rightarrow> string list \<Rightarrow> world \<Rightarrow> world \<times> exc option" where
  "run_single_command reg prog tokens0 w0 =
     (if tokens0 = [] then (w0, None)
      else case parse_redirections tokens0 w0 of
        (None, w) \<Rightarrow> (w, None)
      | (Some r, w) \<Rightarrow>
          (case clean_tokens r of
             [] \<Rightarrow> (w, Some (Error ''list index out of range''))
           | cmd # args \<Rightarrow>
               if is_builtin reg cmd then
                 (let old_out = sys_stdout w;
                      old_err = sys_stderr w;
                      w1 = rebind_stderr (stderr_dest r) (rebind_stdout (stdout_dest r) w);
                      (w2, raised) = execute reg cmd args w1;
                      w3 = report ''Error: '' raised w2;
                      w4 = w3\<lparr>sys_stdout := old_out, sys_stderr := old_err\<rparr>
                  in case propagates raised of
                       Some e \<Rightarrow> (w4, Some e)
                     | None \<Rightarrow> (close_opt (file_err r) (close_opt (file_out r) w4), None))
               else
                 (case find_executable (os w) cmd of
                    None \<Rightarrow>
                      (close_opt (file_err r) (close_opt (file_out r)
                         (print_error (cmd @ '': command not found'') w)), None)
                  | Some exe \<Rightarrow>
                      if exe = [] then
                        (close_opt (file_err r) (close_opt (file_out r)
                           (print_error (cmd @ '': command not found'') w)), None)
                      else
                        (case prog exe (cmd # args) (console_in w) (os w) of
                           Inl e \<Rightarrow>
                             (case propagates (Some e) of
                                Some e' \<Rightarrow> (w, Some e')
                              | None \<Rightarrow>
                                  (close_opt (file_err r) (close_opt (file_out r)
                                     (report ''Execution error: '' (Some e) w)), None))
                         | Inr p \<Rightarrow>
                             (let w1 = w\<lparr>os := p_env p,
                                        calls := calls w @
                                          [Process_call exe (cmd # args) (console_in w)]\<rparr>;
                                  w2 = fd_deliver (or_else (stdout_dest r) Console_out) (p_out p) w1;
                                  w3 = fd_deliver (or_else (stderr_dest r) Console_err) (p_err p) w2
                              in (close_opt (file_err r) (close_opt (file_out r) w3), None))))))"

text \<open>
  \<open>Executor.run_pipeline\<close>. The state of its \<open>for\<close> loop: still running, with
  \<open>prev_stdin\<close>, \<open>to_close\<close> and the world; left by \<open>break\<close>; or left by an exception that
  propagates out of the function.
\<close>

datatype loop_state =
  Running "stream option" "stream list" world
| Broke "stream list" world
| Raised exc world

fun opt_list :: "'a option \<Rightarrow> 'a list" where
  "opt_list None = []"
| "opt_list (Some x) = [x]"

text \<open>The branch of the loop body for a built-in.\<close>

definition builtin_stage ::
  "registry \<Rightarrow> bool \<Rightarrow> string \<Rightarrow> string list \<Rightarrow> stream option \<Rightarrow> stream option \<Rightarrow>
   stream list \<Rightarrow> world \<Rightarrow> loop_state" where
  "builtin_stage reg is_last cmd_name args f_out prev_stdin to_close w =
     (let old_stdin = sys_stdin w;
          w1 = rebind_stdin prev_stdin w;
          old_stdout = sys_stdout w1;
          (temp_out, w2) =
            (if \<not> is_last
             then (let (t, w') = temporary_file w1 in (Some t, w'\<lparr>sys_stdout := t\<rparr>))
             else (None, rebind_stdout f_out w1));
          (w3, raised) = execute reg cmd_name args w2;
          w4 = report ''Pipeline error: '' raised w3;
          w5 = w4\<lparr>sys_stdout := old_stdout, sys_stdin := old_stdin\<rparr>
      in case propagates raised of
           Some e \<Rightarrow> Raised e w5
         | None \<Rightarrow>
             (case temp_out of
                Some t \<Rightarrow> Running (Some t) (to_close @ [t]) (seek0 t w5)
              | None \<Rightarrow> Running None to_close w5))"

text \<open>
  The branch for an external command. With \<open>stdout=subprocess.PIPE\<close> the output of the
  process is the content of a new pipe object, \<open>proc.stdout\<close>.
\<close>

definition external_stage ::
  "program \<Rightarrow> bool \<Rightarrow> string \<Rightarrow> string list \<Rightarrow> stream option \<Rightarrow> stream option \<Rightarrow>
   stream option \<Rightarrow> stream list \<Rightarrow> world \<Rightarrow> loop_state" where
  "external_stage prog is_last cmd_name args f_out f_err prev_stdin to_close w =
     (case find_executable (os w) cmd_name of
        None \<Rightarrow> Broke to_close (print_error (cmd_name @ '': command not found'') w)
      | Some exe \<Rightarrow>
          if exe = [] then Broke to_close (print_error (cmd_name @ '': command not found'') w)
          else
            (let inp = (case prev_stdin of Some s \<Rightarrow> stream_raw s w | None \<Rightarrow> console_in w)
             in case prog exe (cmd_name # args) inp (os w) of
                  Inl e \<Rightarrow>
                    (case propagates (Some e) of
                       Some e' \<Rightarrow> Raised e' w
                     | None \<Rightarrow> Broke to_close (report ''Pipeline error: '' (Some e) w))
                | Inr p \<Rightarrow>
                    (let w1 = w\<lparr>os := p_env p,
                               calls := calls w @ [Process_call exe (cmd_name # args) inp]\<rparr>;
                         w2 = fd_deliver (or_else f_err Console_err) (p_err p) w1
                     in if \<not> is_last then
                          Running (Some (Obj (length (objs w2)))) to_close
                            (w2\<lparr>objs := objs w2 @
                               [\<lparr>f_kind = Pipe, f_append = False, f_buf = p_out p, f_pos = 0,
                                 f_closed = False\<rparr>]\<rparr>)
                        else
                          Running prev_stdin to_close
                            (fd_deliver (or_else f_out Console_out) (p_out p) w2))))"

text \<open>The loop body for one stage, the loop, the cleanup and the function.\<close>

definition stage ::
  "registry \<Rightarrow> program \<Rightarrow> bool \<Rightarrow> string list \<Rightarrow> stream option \<Rightarrow> stream list \<Rightarrow> world \<Rightarrow>
   loop_state" where
  "stage reg prog is_last cmd_tokens prev_stdin to_close w0 =
     (case parse_redirections cmd_tokens w0 of
        (None, w) \<Rightarrow> Broke to_close w
      | (Some r, w) \<Rightarrow>
          (case clean_tokens r of
             [] \<Rightarrow> Broke to_close w
           | cmd_name # args \<Rightarrow>
               (let to_close1 = to_close @ opt_list (file_out r) @ opt_list (file_err r)
                in if is_builtin reg cmd_name
                   then builtin_stage reg is_last cmd_name args (stdout_dest r) prev_stdin
                          to_close1 w
                   else external_stage prog is_last cmd_name args (stdout_dest r) (stderr_dest r)
                          prev_stdin to_close1 w)))"

fun run_stages ::
  "registry \<Rightarrow> program \<Rightarrow> nat \<Rightarrow> nat \<Rightarrow> string list list \<Rightarrow> loop_state \<Rightarrow> loop_state" where
  "run_stages reg prog n i [] s = s"
| "run_stages reg prog n i (cmd_tokens # rest) (Running prev_stdin to_close w) =
     run_stages reg prog n (Suc i) rest
       (stage reg prog (i = n - 1) cmd_tokens prev_stdin to_close w)"
| "run_stages reg prog n i (cmd_tokens # rest) s = s"

fun cleanup :: "stream list \<Rightarrow> world \<Rightarrow> world" where
  "cleanup [] w = w"
| "cleanup (f # fs) w = cleanup fs (close f w)"

definition run_pipeline ::
  "registry \<Rightarrow> program \<Rightarrow> string list list \<Rightarrow> world \<Rightarrow> world \<times> exc option" where
  "run_pipeline reg prog commands w =
     (if commands = [] then (w, None)
      else case run_stages reg prog (length commands) 0 commands (Running None [] w) of
             Running prev_stdin to_close w' \<Rightarrow> (cleanup to_close w', None)
           | Broke to_close w' \<Rightarrow> (cleanup to_close w', None)
           | Raised e w' \<Rightarrow> (w', Some e))"

text \<open>\<open>Shell.process_line\<close>.\<close>

definition process_line ::
  "registry \<Rightarrow> program \<Rightarrow> string \<Rightarrow> world \<Rightarrow> world \<times> exc option" where
  "process_line reg prog line w =
     (if strip line = [] then (w, None)
      else (let tokens = tokenize (strip line)
            in case split_pipeline tokens of
                 Some (c # cs) \<Rightarrow> run_pipeline reg prog (c # cs) w
               | Some [] \<Rightarrow> run_single_command reg prog tokens w
               | None \<Rightarrow> run_single_command reg prog tokens w))"

section \<open>A sample machine\<close>

text \<open>
  The interpreter as it starts, on a machine with no files: the concrete runs below start
  here. \<open>quiet\<close> fills the registry's parameter with built-ins that print nothing and
  \<open>idle\<close> is a program that prints nothing; the runs below call neither.
\<close>

definition empty_env :: env where
  "empty_env =
     \<lparr>files = Map.empty,
      oserror = (\<lambda>p. ''[Errno 2] No such file or directory: '' @ py_repr p),
      unwritable = {}, histfile = None, path_env = ''/usr/bin:/bin'',
      history = [], written_count = 0\<rparr>"

definition boot :: "env \<Rightarrow> world" where
  "boot e =
     \<lparr>sys_stdin = Console_in, sys_stdout = Console_out, sys_stderr = Console_err, objs = [],
      console_in = [], console_out = [], console_err = [], os = e, calls = []\<rparr>"

definition silent :: builtin where
  "silent args inp e = \<lparr>b_out = [], b_err = [], b_raised = None, b_env = e\<rparr>"

definition quiet :: others where
  "quiet =
     \<lparr>cmd_pwd = silent, cmd_cd = silent, cmd_type = silent, cmd_history = silent,
      cmd_search = silent, cmd_ls = silent, cmd_wc = silent\<rparr>"

definition idle :: program where
  "idle exe argv inp e = Inr \<lparr>p_out = [], p_err = [], p_env = e\<rparr>"

section \<open>Observations used by the claims\<close>

text \<open>The three process-wide streams of a world, and the world of a loop state.\<close>

definition std_of :: "world \<Rightarrow> stream \<times> stream \<times> stream" where
  "std_of w = (sys_stdin w, sys_stdout w, sys_stderr w)"

fun state_world :: "loop_state \<Rightarrow> world" where
  "state_world (Running prev_stdin to_close w) = w"
| "state_world (Broke to_close w) = w"
| "state_world (Raised e w) = w"


text \<open>A stream that exists in a world: a console stream, or an object made so far.\<close>

fun allocated :: "world \<Rightarrow> stream \<Rightarrow> bool" where
  "allocated w (Obj k) = (k < length (objs w))"
| "allocated w s = True"

text \<open>
  The kinds of the objects made so far, and the invariant of the loop of \<open>run_pipeline\<close>:
  every object made since the index \<open>base\<close> that is a file or a temporary buffer is on
  the list of handles to close.
\<close>

definition kinds :: "world \<Rightarrow> kind list" where
  "kinds w = map f_kind (objs w)"


section \<open>Lemmas on the parser\<close>

lemma tokenize_loop_nonempty:
  "\<forall>t\<in>set args. t \<noteq> [] \<Longrightarrow> \<forall>t\<in>set (tokenize_loop line s d cur args). t \<noteq> []"
proof (induction "length line" arbitrary: line s d cur args rule: less_induct)
  case less
  show ?case
  proof (cases line)
    case Nil
    then show ?thesis using less.prems by simp
  next
    case (Cons ch rest)
    have ih: "(\<forall>t\<in>set (tokenize_loop r s' d' c a). t \<noteq> []) = True"
      if "length r \<le> length rest" "\<forall>t\<in>set a. t \<noteq> []" for r s' d' c a
      using less.hyps[of r a s' d' c] that Cons by simp
    show ?thesis
      unfolding Cons
      by (subst tokenize_loop.simps(2))
         (simp add: ih less.prems del: tokenize_loop.simps split: list.split)
  qed
qed

lemma isspace_space: "isspace (CHR '' '')"
  by (simp add: isspace_def)

lemma tokenize_loop_plain:
  "plain line \<Longrightarrow> tokenize_loop line False False cur args = args @ words_from cur line"
  by (induction line arbitrary: cur args) (auto simp: plain_def)

lemma words_from_append:
  "\<forall>c\<in>set t. \<not> isspace c \<Longrightarrow> words_from cur (t @ rest) = words_from (cur @ t) rest"
  by (induction t arbitrary: cur) auto

lemma words_from_word:
  "\<forall>c\<in>set cur. \<not> isspace c \<Longrightarrow> t \<in> set (words_from cur line) \<Longrightarrow> word t"
proof (induction line arbitrary: cur)
  case Nil
  then show ?case by (simp add: word_def split: if_splits)
next
  case (Cons c cs)
  show ?case
  proof (cases "isspace c")
    case True
    then have "t = cur \<and> cur \<noteq> [] \<or> t \<in> set (words_from [] cs)"
      using Cons.prems(2) by (simp split: if_splits)
    then show ?thesis
      using Cons.IH[of "[]"] Cons.prems(1) by (auto simp: word_def)
  next
    case False
    then have "t \<in> set (words_from (cur @ [c]) cs)"
      using Cons.prems(2) by simp
    moreover have "\<forall>x\<in>set (cur @ [c]). \<not> isspace x"
      using Cons.prems(1) False by simp
    ultimately show ?thesis by (rule Cons.IH[rotated])
  qed
qed

lemma words_from_plain:
  "plain cur \<Longrightarrow> plain line \<Longrightarrow> t \<in> set (words_from cur line) \<Longrightarrow> plain t"
proof (induction line arbitrary: cur)
  case Nil
  then show ?case by (simp split: if_splits)
next
  case (Cons c cs)
  have cs: "plain cs" and c: "plain (cur @ [c])" and e: "plain []"
    using Cons.prems(1,2) by (simp_all add: plain_def)
  show ?case
  proof (cases "isspace c")
    case True
    then have "t = cur \<or> t \<in> set (words_from [] cs)"
      using Cons.prems(3) by (simp split: if_splits)
    then show ?thesis
      using Cons.IH[OF e cs] Cons.prems(1) by blast
  next
    case False
    then have "t \<in> set (words_from (cur @ [c]) cs)"
      using Cons.prems(3) by simp
    then show ?thesis by (rule Cons.IH[OF c cs])
  qed
qed

lemma plain_join:
  "\<forall>t\<in>set ts. plain t \<Longrightarrow> plain (join SPACE ts)"
proof (induction ts)
  case Nil
  then show ?case by (simp add: plain_def)
next
  case (Cons x ts)
  have s: "plain SPACE"
    by (simp add: plain_def SPACE_def squote_def dquote_def backslash_def)
  have a: "plain (u @ v)" if "plain u" "plain v" for u v
    using that by (simp add: plain_def)
  show ?case
  proof (cases ts)
    case Nil
    then show ?thesis using Cons.prems by simp
  next
    case (Cons y ys)
    then show ?thesis
      using Cons.prems Cons.IH a[OF _ a[OF s]] \<open>\<forall>t\<in>set (x # ts). plain t\<close> by simp
  qed
qed

lemma words_from_join:
  "\<forall>t\<in>set ts. word t \<Longrightarrow> words_from [] (join SPACE ts) = ts"
proof (induction ts)
  case Nil
  thus ?case by simp
next
  case (Cons x ts)
  have x: "x \<noteq> []" "\<forall>c\<in>set x. \<not> isspace c"
    using Cons.prems by (auto simp: word_def)
  show ?case
  proof (cases ts)
    case Nil
    have "words_from [] (x @ []) = words_from ([] @ x) []"
      by (rule words_from_append[OF x(2)])
    thus ?thesis using Nil x(1) by simp
  next
    case (Cons y ys)
    have "words_from [] (x @ SPACE @ join SPACE ts) = words_from ([] @ x) (SPACE @ join SPACE ts)"
      by (rule words_from_append[OF x(2)])
    also have "\<dots> = x # words_from [] (join SPACE ts)"
      using x(1) by (simp add: SPACE_def isspace_space)
    also have "\<dots> = x # ts"
      using Cons.IH Cons.prems by simp
    finally show ?thesis using Cons by simp
  qed
qed

lemma split_on_nonempty: "split_on sep xs \<noteq> []"
  by (induction xs) (auto split: list.splits)

lemma split_loop_eq:
  "split_loop ts cur cmds =
     cmds @ filter (\<lambda>g. g \<noteq> []) (case split_on ''|'' ts of g # gs \<Rightarrow> (cur @ g) # gs | [] \<Rightarrow> [])"
proof (induction ts arbitrary: cur cmds)
  case Nil
  thus ?case by simp
next
  case (Cons t ts)
  obtain g gs where g: "split_on ''|'' ts = g # gs"
    using split_on_nonempty[of "''|''" ts] by (cases "split_on ''|'' ts") auto
  show ?case using Cons[of "cur @ [t]" cmds] Cons[of "[]"] g by simp
qed

lemmas char_defs = squote_def dquote_def backslash_def newline_def isspace_def

section \<open>Claims on the parser\<close>

text \<open>
  C9. \<open>tokenize\<close> never emits an empty token, whatever the line; a quoted empty string
  standing alone contributes no token, so \<open>echo ''\<close> and \<open>echo ""\<close> give the command
  no argument.
\<close>

theorem tokenize_no_empty_token:
  "(\<forall>t\<in>set (tokenize line). t \<noteq> []) \<and>
   tokenize (''echo '' @ [squote, squote]) = [''echo''] \<and>
   tokenize (''echo '' @ [dquote, dquote]) = [''echo'']"
proof -
  have "\<forall>t\<in>set (tokenize line). t \<noteq> []"
    unfolding tokenize_def by (rule tokenize_loop_nonempty) simp
  moreover have "tokenize (''echo '' @ [squote, squote]) = [''echo'']"
    by (simp add: tokenize_def char_defs)
  moreover have "tokenize (''echo '' @ [dquote, dquote]) = [''echo'']"
    by (simp add: tokenize_def char_defs)
  ultimately show ?thesis by blast
qed

theorem tokenize_no_empty_token_witness:
  "tokenize (''a  '' @ [squote, squote] @ '' b'') = [''a'', ''b''] \<and>
   ''a'' \<in> set (tokenize (''a  '' @ [squote, squote] @ '' b'')) \<and>
   [] \<notin> set (tokenize (''a  '' @ [squote, squote] @ '' b''))"
proof -
  have e: "tokenize (''a  '' @ [squote, squote] @ '' b'') = [''a'', ''b'']"
    by (simp add: tokenize_def char_defs)
  have "[] \<notin> set (tokenize (''a  '' @ [squote, squote] @ '' b''))"
    using tokenize_no_empty_token[of "''a  '' @ [squote, squote] @ '' b''"] by blast
  then show ?thesis using e by simp
qed

text \<open>
  C8, as amended. For every line that contains no quote character and no backslash,
  tokenizing is idempotent: joining the tokens with single spaces and tokenizing again
  gives the same tokens.
\<close>

theorem tokenize_idempotent_plain:
  assumes "plain line"
  shows "tokenize (join SPACE (tokenize line)) = tokenize line"
proof -
  have t: "tokenize line = words_from [] line"
    using tokenize_loop_plain[OF assms, of "[]" "[]"] by (simp add: tokenize_def)
  have e: "plain []" by (simp add: plain_def)
  have "\<forall>t\<in>set (words_from [] line). plain t"
    using words_from_plain[OF e assms] by blast
  hence "plain (join SPACE (words_from [] line))"
    by (rule plain_join)
  hence "tokenize (join SPACE (words_from [] line)) = words_from [] (join SPACE (words_from [] line))"
    using tokenize_loop_plain[of _ "[]" "[]"] by (simp add: tokenize_def)
  also have "\<dots> = words_from [] line"
  proof (rule words_from_join)
    show "\<forall>t\<in>set (words_from [] line). word t"
      using words_from_word[of "[]" _ line] by simp
  qed
  finally show ?thesis by (simp add: t)
qed

theorem tokenize_idempotent_plain_witness:
  "plain ''ls  -l   /tmp '' \<and>
   tokenize ''ls  -l   /tmp '' = [''ls'', ''-l'', ''/tmp''] \<and>
   tokenize (join SPACE (tokenize ''ls  -l   /tmp '')) = tokenize ''ls  -l   /tmp ''"
proof -
  have p: "plain ''ls  -l   /tmp ''"
    by (simp add: plain_def char_defs)
  have "tokenize ''ls  -l   /tmp '' = [''ls'', ''-l'', ''/tmp'']"
    by (simp add: tokenize_def char_defs)
  then show ?thesis using p tokenize_idempotent_plain[OF p] by simp
qed

text \<open>
  C8 as stated fails on a line without quotes that has a backslash: \<open>a\ b\<close> is the one
  token \<open>a b\<close>, which tokenizes to two.
\<close>

theorem tokenize_idempotent_counterexample:
  "squote \<notin> set [CHR ''a'', backslash, CHR '' '', CHR ''b''] \<and>
   dquote \<notin> set [CHR ''a'', backslash, CHR '' '', CHR ''b''] \<and>
   tokenize [CHR ''a'', backslash, CHR '' '', CHR ''b''] = [''a b''] \<and>
   tokenize (join SPACE (tokenize [CHR ''a'', backslash, CHR '' '', CHR ''b''])) = [''a'', ''b'']"
  by (simp add: tokenize_def char_defs)

text \<open>
  C5, as amended. The token sequence is split at every token that is exactly \<open>|\<close>, and
  nowhere else; groups without a token are left out, and there is no pipeline when no
  token is \<open>|\<close>. Whether the \<open>|\<close> was quoted in the line plays no part: a quoted \<open>|\<close>
  standing alone is the token \<open>|\<close> and splits, and an unquoted \<open>|\<close> inside a longer token
  does not.
\<close>

theorem split_pipeline_at_pipe_tokens:
  "split_pipeline tokens =
     (if ''|'' \<in> set tokens then Some (filter (\<lambda>g. g \<noteq> []) (split_on ''|'' tokens)) else None) \<and>
   tokenize (''a '' @ [squote] @ ''|'' @ [squote] @ '' b'') = tokenize ''a | b'' \<and>
   tokenize ''a|b'' = [''a|b'']"
proof -
  obtain g gs where g: "split_on ''|'' tokens = g # gs"
    using split_on_nonempty[of "''|''" tokens] by (cases "split_on ''|'' tokens") auto
  have "split_loop tokens [] [] = filter (\<lambda>g. g \<noteq> []) (split_on ''|'' tokens)"
    using split_loop_eq[of tokens "[]" "[]"] g by simp
  moreover have "tokenize (''a '' @ [squote] @ ''|'' @ [squote] @ '' b'') = tokenize ''a | b''"
    by (simp add: tokenize_def char_defs)
  moreover have "tokenize ''a|b'' = [''a|b'']"
    by (simp add: tokenize_def char_defs)
  ultimately show ?thesis by (simp add: split_pipeline_def)
qed

text \<open>
  C5 as stated fails on \<open>echo '|' x\<close>: the only \<open>|\<close> of the line is inside single quotes,
  and the tokens are split into two stages there.
\<close>

theorem split_pipeline_quoted_counterexample:
  "split_pipeline (tokenize (''echo '' @ [squote] @ ''|'' @ [squote] @ '' x'')) =
     Some [[''echo''], [''x'']]"
  by (simp add: tokenize_def split_pipeline_def char_defs)

section \<open>Lemmas on the executor\<close>

lemma deliver_frame [simp]:
  "sys_stdin (deliver s t w) = sys_stdin w"
  "sys_stdout (deliver s t w) = sys_stdout w"
  "sys_stderr (deliver s t w) = sys_stderr w"
  "calls (deliver s t w) = calls w"
  "console_in (deliver s t w) = console_in w"
  "length (objs (deliver s t w)) = length (objs w)"
  by (cases s; simp split: kind.split)+

lemma print_error_frame [simp]:
  "sys_stdin (print_error m w) = sys_stdin w"
  "sys_stdout (print_error m w) = sys_stdout w"
  "sys_stderr (print_error m w) = sys_stderr w"
  "calls (print_error m w) = calls w"
  "console_in (print_error m w) = console_in w"
  "length (objs (print_error m w)) = length (objs w)"
  by (simp_all add: print_error_def)

lemma report_frame [simp]:
  "sys_stdin (report p r w) = sys_stdin w"
  "sys_stdout (report p r w) = sys_stdout w"
  "sys_stderr (report p r w) = sys_stderr w"
  "calls (report p r w) = calls w"
  "console_in (report p r w) = console_in w"
  "length (objs (report p r w)) = length (objs w)"
  by (induction p r w rule: report.induct; simp)+

lemma fd_write_frame [simp]:
  "sys_stdin (fd_write k t w) = sys_stdin w"
  "sys_stdout (fd_write k t w) = sys_stdout w"
  "sys_stderr (fd_write k t w) = sys_stderr w"
  "calls (fd_write k t w) = calls w"
  "console_in (fd_write k t w) = console_in w"
  "console_err (fd_write k t w) = console_err w"
  "console_out (fd_write k t w) = console_out w"
  "length (objs (fd_write k t w)) = length (objs w)"
  by (simp_all add: fd_write_def Let_def split: kind.split)

lemma fd_deliver_frame [simp]:
  "sys_stdin (fd_deliver s t w) = sys_stdin w"
  "sys_stdout (fd_deliver s t w) = sys_stdout w"
  "sys_stderr (fd_deliver s t w) = sys_stderr w"
  "calls (fd_deliver s t w) = calls w"
  "console_in (fd_deliver s t w) = console_in w"
  "length (objs (fd_deliver s t w)) = length (objs w)"
  by (cases s; simp)+

lemma flush_frame [simp]:
  "sys_stdin (flush k w) = sys_stdin w"
  "sys_stdout (flush k w) = sys_stdout w"
  "sys_stderr (flush k w) = sys_stderr w"
  "calls (flush k w) = calls w"
  "console_in (flush k w) = console_in w"
  "console_err (flush k w) = console_err w"
  "console_out (flush k w) = console_out w"
  "length (objs (flush k w)) = length (objs w)"
  by (simp_all add: flush_def Let_def split: kind.split)

lemma close_frame [simp]:
  "sys_stdin (close s w) = sys_stdin w"
  "sys_stdout (close s w) = sys_stdout w"
  "sys_stderr (close s w) = sys_stderr w"
  "calls (close s w) = calls w"
  "console_err (close s w) = console_err w"
  "console_out (close s w) = console_out w"
  "length (objs (close s w)) = length (objs w)"
  by (cases s; simp add: Let_def)+

lemma close_opt_frame [simp]:
  "sys_stdin (close_opt f w) = sys_stdin w"
  "sys_stdout (close_opt f w) = sys_stdout w"
  "sys_stderr (close_opt f w) = sys_stderr w"
  "calls (close_opt f w) = calls w"
  "console_err (close_opt f w) = console_err w"
  "console_out (close_opt f w) = console_out w"
  "length (objs (close_opt f w)) = length (objs w)"
  by (cases f; simp)+

lemma seek0_frame [simp]:
  "sys_stdin (seek0 s w) = sys_stdin w"
  "sys_stdout (seek0 s w) = sys_stdout w"
  "sys_stderr (seek0 s w) = sys_stderr w"
  "calls (seek0 s w) = calls w"
  "console_err (seek0 s w) = console_err w"
  "console_out (seek0 s w) = console_out w"
  "os (seek0 s w) = os w"
  "length (objs (seek0 s w)) = length (objs w)"
  by (cases s; simp)+

lemma cleanup_frame [simp]:
  "sys_stdin (cleanup fs w) = sys_stdin w"
  "sys_stdout (cleanup fs w) = sys_stdout w"
  "sys_stderr (cleanup fs w) = sys_stderr w"
  "calls (cleanup fs w) = calls w"
  "console_err (cleanup fs w) = console_err w"
  "console_out (cleanup fs w) = console_out w"
  "length (objs (cleanup fs w)) = length (objs w)"
  by (induction fs arbitrary: w; simp)+

lemma open_write_frame:
  assumes "open_write path a w = Inr (f, w')"
  shows "sys_stdin w' = sys_stdin w" "sys_stdout w' = sys_stdout w" "sys_stderr w' = sys_stderr w"
    "calls w' = calls w" "console_in w' = console_in w" "console_out w' = console_out w"
    "console_err w' = console_err w"
    "f = Obj (length (objs w))"
    "objs w' = objs w @
       [\<lparr>f_kind = File path, f_append = a, f_buf = [], f_pos = 0, f_closed = False\<rparr>]"
  using assms by (auto simp: open_write_def split: if_splits)

lemma resolve_class_frame:
  assumes "resolve_class ops ts w = Inr (ts', f, w')"
  shows "sys_stdin w' = sys_stdin w" "sys_stdout w' = sys_stdout w" "sys_stderr w' = sys_stderr w"
    "calls w' = calls w" "console_in w' = console_in w" "console_out w' = console_out w"
    "console_err w' = console_err w"
    "\<exists>new. objs w' = objs w @ new"
  using assms
  by (auto simp: resolve_class_def Let_def split: option.splits if_splits sum.splits
           dest: open_write_frame)

lemma parse_redirections_Some:
  assumes "parse_redirections ts w = (Some r, w')"
  obtains ts1 w1 where
    "resolve_class stderr_ops ts w = Inr (ts1, file_err r, w1)"
    "resolve_class stdout_ops ts1 w1 = Inr (clean_tokens r, file_out r, w')"
    "stdout_dest r = file_out r" "stderr_dest r = file_err r"
  using assms
  by (auto simp: parse_redirections_def split: sum.splits prod.splits)

lemma parse_redirections_None:
  assumes "parse_redirections ts w = (None, w')"
  obtains m where "w' = print_error m w"
  | m ts1 ferr w1 where "resolve_class stderr_ops ts w = Inr (ts1, ferr, w1)" "w' = print_error m w1"
  using assms
  by (auto simp: parse_redirections_def split: sum.splits prod.splits)

lemma parse_redirections_frame:
  assumes "parse_redirections ts w = (r, w')"
  shows "sys_stdin w' = sys_stdin w" "sys_stdout w' = sys_stdout w" "sys_stderr w' = sys_stderr w"
    "calls w' = calls w" "console_in w' = console_in w"
proof -
  have "sys_stdin w' = sys_stdin w \<and> sys_stdout w' = sys_stdout w \<and> sys_stderr w' = sys_stderr w \<and>
        calls w' = calls w \<and> console_in w' = console_in w"
  proof (cases r)
    case None
    with assms have a: "parse_redirections ts w = (None, w')" by simp
    show ?thesis
    proof (rule parse_redirections_None[OF a])
      fix m assume "w' = print_error m w"
      then show ?thesis by simp
    next
      fix m ts1 ferr w1
      assume 1: "resolve_class stderr_ops ts w = Inr (ts1, ferr, w1)" and "w' = print_error m w1"
      then show ?thesis using resolve_class_frame[OF 1] by simp
    qed
  next
    case (Some x)
    with assms have a: "parse_redirections ts w = (Some x, w')" by simp
    show ?thesis
    proof (rule parse_redirections_Some[OF a])
      fix ts1 w1
      assume 1: "resolve_class stderr_ops ts w = Inr (ts1, file_err x, w1)"
        and 2: "resolve_class stdout_ops ts1 w1 = Inr (clean_tokens x, file_out x, w')"
      show ?thesis using resolve_class_frame[OF 1] resolve_class_frame[OF 2] by simp
    qed
  qed
  then show "sys_stdin w' = sys_stdin w" "sys_stdout w' = sys_stdout w"
    "sys_stderr w' = sys_stderr w" "calls w' = calls w" "console_in w' = console_in w"
    by simp_all
qed

lemma parse_redirections_objs:
  assumes "parse_redirections ts w = (Some r, w')"
  shows "\<exists>new. objs w' = objs w @ new" "console_out w' = console_out w" "console_err w' = console_err w"
proof -
  obtain ts1 w1 where
    1: "resolve_class stderr_ops ts w = Inr (ts1, file_err r, w1)" and
    2: "resolve_class stdout_ops ts1 w1 = Inr (clean_tokens r, file_out r, w')"
    using assms by (rule parse_redirections_Some)
  show "\<exists>new. objs w' = objs w @ new"
    using resolve_class_frame(8)[OF 1] resolve_class_frame(8)[OF 2] by auto
  show "console_out w' = console_out w"
    using resolve_class_frame(6)[OF 1] resolve_class_frame(6)[OF 2] by simp
  show "console_err w' = console_err w"
    using resolve_class_frame(7)[OF 1] resolve_class_frame(7)[OF 2] by simp
qed

lemma execute_frame:
  assumes "execute reg name args w = (w', r)"
  shows "sys_stdin w' = sys_stdin w" "sys_stdout w' = sys_stdout w" "sys_stderr w' = sys_stderr w"
    "console_in w' = console_in w" "length (objs w') = length (objs w)"
  using assms by (auto simp: execute_def Let_def split: option.splits)


lemma std_of_simps [simp]:
  "std_of (deliver s t w) = std_of w"
  "std_of (fd_deliver s t w) = std_of w"
  "std_of (print_error m w) = std_of w"
  "std_of (report p r w) = std_of w"
  "std_of (close s w) = std_of w"
  "std_of (close_opt f w) = std_of w"
  "std_of (seek0 s w) = std_of w"
  "std_of (cleanup fs w) = std_of w"
  "std_of (w\<lparr>objs := ob\<rparr>) = std_of w"
  "std_of (w\<lparr>os := e\<rparr>) = std_of w"
  "std_of (w\<lparr>calls := c\<rparr>) = std_of w"
  by (simp_all add: std_of_def)

lemma std_of_parse: "parse_redirections ts w = (r, w') \<Longrightarrow> std_of w' = std_of w"
  by (simp add: std_of_def parse_redirections_frame)

lemma std_of_execute: "execute reg name args w = (w', r) \<Longrightarrow> std_of w' = std_of w"
  by (simp add: std_of_def execute_frame)

lemma std_of_restore:
  "std_of (w'\<lparr>sys_stdout := sys_stdout w, sys_stderr := sys_stderr w\<rparr>) = std_of w
     \<longleftrightarrow> sys_stdin w' = sys_stdin w"
  "std_of (w'\<lparr>sys_stdout := sys_stdout w, sys_stdin := sys_stdin w\<rparr>) = std_of w
     \<longleftrightarrow> sys_stderr w' = sys_stderr w"
  by (auto simp: std_of_def)

lemma rebind_frame [simp]:
  "sys_stdin (rebind_stdout f w) = sys_stdin w"
  "sys_stderr (rebind_stdout f w) = sys_stderr w"
  "sys_stdin (rebind_stderr f w) = sys_stdin w"
  "sys_stdout (rebind_stderr f w) = sys_stdout w"
  "sys_stdout (rebind_stdin f w) = sys_stdout w"
  "sys_stderr (rebind_stdin f w) = sys_stderr w"
  by (cases f; simp)+

lemma run_single_command_std:
  "std_of (fst (run_single_command reg prog tokens w)) = std_of w"
proof (cases "tokens = []")
  case True
  then show ?thesis by (simp add: run_single_command_def)
next
  case False
  obtain r w1 where p: "parse_redirections tokens w = (r, w1)"
    by (cases "parse_redirections tokens w")
  have s1: "std_of w1 = std_of w" by (rule std_of_parse[OF p])
  show ?thesis
  proof (cases r)
    case None
    then show ?thesis using False p s1 by (simp add: run_single_command_def)
  next
    case (Some x)
    show ?thesis
    proof (cases "clean_tokens x")
      case Nil
      then show ?thesis using False p s1 Some by (simp add: run_single_command_def)
    next
      case (Cons cmd args)
      show ?thesis
      proof (cases "is_builtin reg cmd")
        case True
        obtain w2 raised where
          e: "execute reg cmd args (rebind_stderr (stderr_dest x) (rebind_stdout (stdout_dest x) w1)) = (w2, raised)"
          by (cases "execute reg cmd args (rebind_stderr (stderr_dest x) (rebind_stdout (stdout_dest x) w1))")
        have "sys_stdin w2 = sys_stdin w1"
          using execute_frame(1)[OF e] by simp
        then show ?thesis
          using False p Some Cons True e s1
          by (simp add: run_single_command_def Let_def std_of_def split: option.split)
      next
        case ext: False
        show ?thesis
          using False p Some Cons ext s1
          by (simp add: run_single_command_def Let_def split: option.split sum.split)
      qed
    qed
  qed
qed


lemma execute_std:
  "sys_stdin (fst (execute reg name args w)) = sys_stdin w"
  "sys_stdout (fst (execute reg name args w)) = sys_stdout w"
  "sys_stderr (fst (execute reg name args w)) = sys_stderr w"
  by (simp_all add: execute_def Let_def split: option.split)

lemma builtin_stage_std:
  "std_of (state_world (builtin_stage reg is_last cmd args f_out prev tc w)) = std_of w"
  by (cases prev; cases f_out; cases is_last)
     (simp_all add: builtin_stage_def temporary_file_def Let_def std_of_def execute_std
        case_prod_beta split: option.split)

lemma external_stage_std:
  "std_of (state_world (external_stage prog is_last cmd args f_out f_err prev tc w)) = std_of w"
  by (simp add: external_stage_def Let_def std_of_def split: option.split sum.split)

lemma stage_std:
  "std_of (state_world (stage reg prog is_last cmd_tokens prev tc w)) = std_of w"
proof -
  obtain r w1 where p: "parse_redirections cmd_tokens w = (r, w1)"
    by (cases "parse_redirections cmd_tokens w")
  have s1: "std_of w1 = std_of w" by (rule std_of_parse[OF p])
  show ?thesis
    using p s1
    by (simp add: stage_def Let_def builtin_stage_std external_stage_std
          split: option.split list.split)
qed

lemma run_stages_std:
  "std_of (state_world (run_stages reg prog n i cs s)) = std_of (state_world s)"
proof (induction cs arbitrary: i s)
  case Nil
  then show ?case by simp
next
  case (Cons c cs)
  then show ?case by (cases s) (simp_all add: stage_std)
qed

lemma run_pipeline_std:
  "std_of (fst (run_pipeline reg prog commands w)) = std_of w"
proof (cases "commands = []")
  case True
  then show ?thesis by (simp add: run_pipeline_def)
next
  case False
  have "std_of (state_world (run_stages reg prog (length commands) 0 commands (Running None [] w)))
          = std_of w"
    by (simp add: run_stages_std)
  then show ?thesis
    using False
    by (cases "run_stages reg prog (length commands) 0 commands (Running None [] w)")
       (simp_all add: run_pipeline_def)
qed

section \<open>Claims on the built-ins and the executor\<close>

text \<open>
  C1 (the code departs from the claim). \<open>cmd_exit\<close> saves the history and then always
  leaves with \<open>SystemExit(0)\<close>: the \<open>SystemExit(code)\<close> that \<open>sys.exit(int(args[0]))\<close>
  raises is caught by the bare \<open>except:\<close> around it, whose handler calls \<open>sys.exit(0)\<close>. So
  \<open>exit 5\<close>, where \<open>int('5')\<close> is 5, ends the process with code 0.
\<close>

theorem exit_status_always_zero:
  "b_raised (cmd_exit args inp e) = Some (SystemExit 0) \<and>
   b_env (cmd_exit args inp e) = save e \<and>
   py_int ''5'' = Inr 5 \<and>
   snd (process_line (registry quiet) idle ''exit 5'' (boot empty_env)) = Some (SystemExit 0)"
proof -
  have "b_raised (cmd_exit args inp e) = Some (SystemExit 0)"
    by (simp add: cmd_exit_def try_except_all_def sys_exit_def split: sum.split)
  moreover have "b_env (cmd_exit args inp e) = save e"
    by (simp add: cmd_exit_def)
  moreover have "py_int ''5'' = Inr 5"
    by code_simp
  moreover have "snd (process_line (registry quiet) idle ''exit 5'' (boot empty_env)) = Some (SystemExit 0)"
    by code_simp
  ultimately show ?thesis by blast
qed

text \<open>
  C2 (the code departs from the claim). In \<open>run_pipeline\<close> the branch for a built-in never
  binds \<open>sys.stderr\<close> to the stage's resolved error target. For the line
  \<open>grep 2> err.txt | echo done\<close> the file \<open>err.txt\<close> is created and stays empty, and the
  message of \<open>grep\<close> goes to the console; the same stage run as a single command writes
  the message to \<open>err.txt\<close>.
\<close>

theorem pipeline_builtin_stderr_not_redirected:
  "files (os (fst (process_line (registry quiet) idle ''grep 2> err.txt | echo done'' (boot empty_env))))
     ''err.txt'' = Some [] \<and>
   console_err (fst (process_line (registry quiet) idle ''grep 2> err.txt | echo done'' (boot empty_env)))
     = error_line ''grep: missing search pattern'' \<and>
   files (os (fst (process_line (registry quiet) idle ''grep 2> err.txt'' (boot empty_env))))
     ''err.txt'' = Some (error_line ''grep: missing search pattern'') \<and>
   console_err (fst (process_line (registry quiet) idle ''grep 2> err.txt'' (boot empty_env))) = []"
  by code_simp

text \<open>
  C3. After \<open>run_single_command\<close>, after every stage of \<open>run_pipeline\<close> (whether the loop
  goes on, breaks or an exception propagates) and after \<open>run_pipeline\<close>, \<open>sys.stdin\<close>,
  \<open>sys.stdout\<close> and \<open>sys.stderr\<close> are what they were before, whatever the built-in does
  and raises.
\<close>

theorem streams_restored:
  "std_of (fst (run_single_command reg prog tokens w)) = std_of w \<and>
   std_of (state_world (stage reg prog is_last cmd_tokens prev_stdin to_close w)) = std_of w \<and>
   std_of (fst (run_pipeline reg prog commands w)) = std_of w"
  by (simp add: run_single_command_std stage_std run_pipeline_std)

theorem streams_restored_witness:
  "snd (run_single_command (registry quiet) idle [''exit'', ''>'', ''out.txt''] (boot empty_env))
     = Some (SystemExit 0) \<and>
   std_of (fst (run_single_command (registry quiet) idle [''exit'', ''>'', ''out.txt''] (boot empty_env)))
     = (Console_in, Console_out, Console_err) \<and>
   std_of (fst (run_pipeline (registry quiet) idle [[''echo'', ''a''], [''grep'', ''a'', ''>'', ''out.txt'']]
      (boot empty_env))) = (Console_in, Console_out, Console_err)"
proof -
  have b: "std_of (boot empty_env) = (Console_in, Console_out, Console_err)"
    by (simp add: std_of_def boot_def)
  have "snd (run_single_command (registry quiet) idle [''exit'', ''>'', ''out.txt''] (boot empty_env))
     = Some (SystemExit 0)"
    by code_simp
  then show ?thesis
    using b streams_restored[of "registry quiet" idle "[''exit'', ''>'', ''out.txt'']" "boot empty_env"
        False "[]" None "[]" "[[''echo'', ''a''], [''grep'', ''a'', ''>'', ''out.txt'']]"]
    by simp
qed

section \<open>Lemmas on the redirections\<close>












section \<open>Claims on the redirections\<close>






section \<open>Lemmas on the loop of a pipeline\<close>

lemma rebind_stdin_frame [simp]:
  "objs (rebind_stdin p w) = objs w" "os (rebind_stdin p w) = os w"
  "calls (rebind_stdin p w) = calls w" "console_in (rebind_stdin p w) = console_in w"
  by (cases p; simp)+

lemma rebind_stdout_frame [simp]:
  "objs (rebind_stdout p w) = objs w" "os (rebind_stdout p w) = os w"
  "calls (rebind_stdout p w) = calls w" "console_in (rebind_stdout p w) = console_in w"
  by (cases p; simp)+

lemma map_update_same: "(map f xs)[k := f (xs ! k)] = map f xs"
  by (metis list_update_id map_update)

lemma run_stages_stopped [simp]:
  "run_stages reg prog n i cs (Broke tc w) = Broke tc w"
  "run_stages reg prog n i cs (Raised e w) = Raised e w"
  by (cases cs; simp)+

lemma run_stages_append:
  "run_stages reg prog n i (xs @ ys) s =
     run_stages reg prog n (i + length xs) ys (run_stages reg prog n i xs s)"
proof (induction xs arbitrary: i s)
  case Nil
  then show ?case by simp
next
  case (Cons x xs)
  then show ?case by (cases s) simp_all
qed

lemma run_stages_world_std:
  "run_stages reg prog n i cs (Running prev tc w) = Running prev' tc' w' \<Longrightarrow> std_of w' = std_of w"
  using run_stages_std[of reg prog n i cs "Running prev tc w"] by simp

section \<open>Lemmas on the handles of a pipeline\<close>

lemma kinds_deliver [simp]: "kinds (deliver s t w) = kinds w"
  by (cases s) (auto simp: kinds_def map_update list_update_same_conv split: kind.split)

lemma kinds_print_error [simp]: "kinds (print_error m w) = kinds w"
  by (simp add: print_error_def)

lemma kinds_report [simp]: "kinds (report p r w) = kinds w"
  by (induction p r w rule: report.induct) simp_all

lemma kinds_fd_write [simp]: "kinds (fd_write k t w) = kinds w"
  by (auto simp: fd_write_def Let_def kinds_def map_update list_update_same_conv split: kind.split)


lemma kinds_flush [simp]: "kinds (flush k w) = kinds w"
proof -
  have "kinds (v\<lparr>objs := (objs v)[k := (objs v ! k)\<lparr>f_buf := []\<rparr>]\<rparr>) = kinds v" for v
    by (simp add: kinds_def map_update map_update_same)
  then show ?thesis
    by (simp add: flush_def Let_def split: kind.split)
qed

lemma kinds_close [simp]: "kinds (close s w) = kinds w"
proof -
  have "kinds (v\<lparr>objs := (objs v)[k := (objs v ! k)\<lparr>f_closed := True\<rparr>]\<rparr>) = kinds v" for v k
    by (simp add: kinds_def map_update map_update_same)
  then show ?thesis
    by (cases s) (simp_all add: Let_def)
qed

lemma kinds_seek0 [simp]: "kinds (seek0 s w) = kinds w"
  by (cases s) (auto simp: kinds_def map_update list_update_same_conv)

lemma kinds_cleanup [simp]: "kinds (cleanup fs w) = kinds w"
  by (induction fs arbitrary: w) simp_all

lemma kinds_execute [simp]: "kinds (fst (execute reg name args w)) = kinds w"
proof -
  have "kinds (w\<lparr>os := e, calls := c\<rparr>) = kinds w" for e c
    by (simp add: kinds_def)
  then show ?thesis
    by (simp add: execute_def Let_def split: option.split)
qed

lemma kinds_updates [simp]:
  "kinds (w\<lparr>sys_stdin := a\<rparr>) = kinds w"
  "kinds (w\<lparr>sys_stdout := a\<rparr>) = kinds w"
  "kinds (w\<lparr>sys_stderr := a\<rparr>) = kinds w"
  "kinds (w\<lparr>os := e\<rparr>) = kinds w"
  "kinds (w\<lparr>calls := c\<rparr>) = kinds w"
  "kinds (rebind_stdin p w) = kinds w"
  "kinds (rebind_stdout p w) = kinds w"
  "kinds (w\<lparr>objs := xs\<rparr>) = map f_kind xs"
  by (simp_all add: kinds_def)





















section \<open>Claims on the end of a pipeline\<close>



section \<open>Lemmas on the stages of a pipeline\<close>

lemma universal_newlines_plain: "carriage \<notin> set s \<Longrightarrow> universal_newlines s = s"
  by (induction s rule: universal_newlines.induct) auto

lemma deliver_other:
  "s \<noteq> Obj k \<Longrightarrow> objs (deliver s t w) ! k = objs w ! k"
  by (cases s) (auto split: kind.split)

lemma print_error_other:
  "sys_stderr w \<noteq> Obj k \<Longrightarrow> objs (print_error m w) ! k = objs w ! k"
  by (simp add: print_error_def deliver_other)

lemma report_other:
  "sys_stderr w \<noteq> Obj k \<Longrightarrow> objs (report p r w) ! k = objs w ! k"
  by (induction p r w rule: report.induct) (simp_all add: print_error_other)

lemma execute_calls:
  "reg name = Some b \<Longrightarrow>
   calls (fst (execute reg name args w)) =
     calls w @ [Builtin_call name args (stream_text (sys_stdin w) w)]"
  by (simp add: execute_def Let_def)

lemma execute_length [simp]:
  "length (objs (fst (execute reg name args w))) = length (objs w)"
  by (simp add: execute_def Let_def split: option.split)

lemma execute_to_temp:
  assumes "reg name = Some b" "sys_stdout w = Obj k" "k < length (objs w)"
    "objs w ! k = \<lparr>f_kind = Temp, f_append = False, f_buf = [], f_pos = 0, f_closed = False\<rparr>"
    "sys_stderr w \<noteq> Obj k"
  shows "objs (fst (execute reg name args w)) ! k =
           \<lparr>f_kind = Temp, f_append = False,
            f_buf = b_out (b args (stream_text (sys_stdin w) w) (os w)),
            f_pos = length (b_out (b args (stream_text (sys_stdin w) w) (os w))), f_closed = False\<rparr>"
  using assms by (simp add: execute_def Let_def deliver_other)

lemma stream_raw_grow:
  "stream_raw s (w\<lparr>objs := objs w @
      [\<lparr>f_kind = Temp, f_append = False, f_buf = [], f_pos = 0, f_closed = False\<rparr>]\<rparr>)
     = stream_raw s w"
proof (cases s)
  case (Obj j)
  consider "j < length (objs w)" | "j = length (objs w)" | "j > length (objs w)"
    by linarith
  then show ?thesis
    by cases (simp_all add: Obj nth_append split: kind.split)
qed simp_all

lemma stream_raw_cong:
  "console_in w' = console_in w \<Longrightarrow> objs w' = objs w \<Longrightarrow> stream_raw s w' = stream_raw s w"
  by (cases s) (simp_all split: kind.split)

lemma stream_text_raw:
  "stream_raw s w' = stream_raw s w \<Longrightarrow> stream_text s w' = stream_text s w"
  by (cases s) simp_all

lemma stream_text_grow:
  "stream_text s (w\<lparr>objs := objs w @
      [\<lparr>f_kind = Temp, f_append = False, f_buf = [], f_pos = 0, f_closed = False\<rparr>]\<rparr>)
     = stream_text s w"
  by (rule stream_text_raw) (rule stream_raw_grow)

lemma stream_text_cong:
  "console_in w' = console_in w \<Longrightarrow> objs w' = objs w \<Longrightarrow> stream_text s w' = stream_text s w"
  by (rule stream_text_raw) (rule stream_raw_cong)

lemma allocated_neq: "allocated w s \<Longrightarrow> s \<noteq> Obj (length (objs w))"
  by (cases s) auto

lemma builtin_stage_not_last:
  assumes b: "reg name = Some b" and a: "allocated w (sys_stderr w)"
    and r: "builtin_stage reg False name args f_out prev tc w = Running prev' tc' w'"
  shows "prev' = Some (Obj (length (objs w))) \<and> tc' = tc @ [Obj (length (objs w))] \<and>
         length (objs w') = Suc (length (objs w)) \<and>
         objs w' ! length (objs w) =
           \<lparr>f_kind = Temp, f_append = False,
            f_buf = b_out (b args (stream_text (sys_stdin (rebind_stdin prev w)) w) (os w)),
            f_pos = 0, f_closed = False\<rparr> \<and>
         calls w' = calls w @
           [Builtin_call name args (stream_text (sys_stdin (rebind_stdin prev w)) w)]"
proof -
  let ?k = "length (objs w)"
  let ?t = "\<lparr>f_kind = Temp, f_append = False, f_buf = [], f_pos = 0, f_closed = False\<rparr>"
  let ?w1 = "rebind_stdin prev w"
  let ?wc = "?w1\<lparr>objs := objs ?w1 @ [?t], sys_stdout := Obj ?k\<rparr>"
  let ?inp = "stream_text (sys_stdin ?w1) w"
  let ?res = "b args ?inp (os w)"
  let ?w3 = "fst (execute reg name args ?wc)"
  let ?raised = "snd (execute reg name args ?wc)"
  let ?w5 = "(report ''Pipeline error: '' ?raised ?w3)\<lparr>sys_stdout := sys_stdout ?w1, sys_stdin := sys_stdin w\<rparr>"
  have inp: "stream_text (sys_stdin ?wc) ?wc = ?inp"
  proof -
    have "stream_text (sys_stdin ?w1) ?wc = stream_text (sys_stdin ?w1) (?w1\<lparr>objs := objs ?w1 @ [?t]\<rparr>)"
      by (rule stream_text_cong) simp_all
    also have "\<dots> = stream_text (sys_stdin ?w1) ?w1"
      by (rule stream_text_grow)
    also have "\<dots> = ?inp"
      by (rule stream_text_cong) simp_all
    finally show ?thesis by simp
  qed
  have ne: "sys_stderr ?wc \<noteq> Obj ?k"
    using allocated_neq[OF a] by simp
  have o3: "objs ?w3 ! ?k =
      \<lparr>f_kind = Temp, f_append = False, f_buf = b_out ?res, f_pos = length (b_out ?res),
       f_closed = False\<rparr>"
    using execute_to_temp[of reg name b ?wc ?k args] b ne inp by simp
  have c3: "calls ?w3 = calls w @ [Builtin_call name args ?inp]"
    using execute_calls[of reg name b args ?wc] b inp by simp
  have l3: "length (objs ?w3) = Suc ?k"
    by simp
  have e3: "sys_stderr ?w3 \<noteq> Obj ?k"
    using ne by (simp add: execute_std)
  have o5: "objs ?w5 ! ?k = objs ?w3 ! ?k"
    using report_other[OF e3] by simp
  have l5: "length (objs ?w5) = Suc ?k"
    using l3 by simp
  have c5: "calls ?w5 = calls ?w3"
    by simp
  have res: "builtin_stage reg False name args f_out prev tc w =
      (case propagates ?raised of
         Some e \<Rightarrow> Raised e ?w5
       | None \<Rightarrow> Running (Some (Obj ?k)) (tc @ [Obj ?k]) (seek0 (Obj ?k) ?w5))"
    by (simp add: builtin_stage_def temporary_file_def Let_def case_prod_beta cong: option.case_cong)
  from r res have eq: "prev' = Some (Obj ?k)" "tc' = tc @ [Obj ?k]" "w' = seek0 (Obj ?k) ?w5"
    by (auto split: option.splits)
  have "objs w' ! ?k = (objs ?w5 ! ?k)\<lparr>f_pos := 0\<rparr>"
    unfolding eq(3) using l5 by simp
  then have "objs w' ! ?k =
      \<lparr>f_kind = Temp, f_append = False, f_buf = b_out ?res, f_pos = 0, f_closed = False\<rparr>"
    using o5 o3 by simp
  moreover have "length (objs w') = Suc ?k"
    unfolding eq(3) using l5 by simp
  moreover have "calls w' = calls w @ [Builtin_call name args ?inp]"
    unfolding eq(3) using c5 c3 by simp
  ultimately show ?thesis using eq(1,2) by simp
qed

lemma stream_temp:
  assumes "k < length (objs w)"
    "objs w ! k = \<lparr>f_kind = Temp, f_append = False, f_buf = out, f_pos = 0, f_closed = False\<rparr>"
  shows "stream_raw (Obj k) w = out" "stream_text (Obj k) w = universal_newlines out"
  using assms by simp_all

lemma builtin_stage_reads_prev:
  assumes b: "reg name = Some b" and k: "k < length (objs w)"
    and o: "objs w ! k = \<lparr>f_kind = Temp, f_append = False, f_buf = out, f_pos = 0, f_closed = False\<rparr>"
  shows "calls (state_world (builtin_stage reg is_last name args f_out (Some (Obj k)) tc w)) =
           calls w @ [Builtin_call name args (universal_newlines out)]"
proof -
  let ?t = "\<lparr>f_kind = Temp, f_append = False, f_buf = [], f_pos = 0, f_closed = False\<rparr>"
  let ?w1 = "w\<lparr>sys_stdin := Obj k\<rparr>"
  let ?wc = "if is_last then rebind_stdout f_out ?w1
             else ?w1\<lparr>objs := objs ?w1 @ [?t], sys_stdout := Obj (length (objs ?w1))\<rparr>"
  have i: "sys_stdin ?wc = Obj k" by simp
  have "k < length (objs ?wc)" "objs ?wc ! k = objs w ! k"
    using k by (simp_all add: nth_append)
  then have "stream_text (Obj k) ?wc = universal_newlines out"
    using o by (intro stream_temp(2)) simp_all
  then have c: "calls (fst (execute reg name args ?wc)) =
      calls w @ [Builtin_call name args (universal_newlines out)]"
    using execute_calls[of reg name b args ?wc] b i by simp
  show ?thesis
    using c
    by (cases is_last)
       (simp_all add: builtin_stage_def temporary_file_def Let_def case_prod_beta
          split: option.split)
qed

lemma external_stage_reads_prev:
  assumes "find_executable (os w) name = Some exe" "exe \<noteq> []" "k < length (objs w)"
    "objs w ! k = \<lparr>f_kind = Temp, f_append = False, f_buf = out, f_pos = 0, f_closed = False\<rparr>"
    "prog exe (name # args) out (os w) = Inr p"
  shows "calls (state_world (external_stage prog is_last name args f_out f_err (Some (Obj k)) tc w)) =
           calls w @ [Process_call exe (name # args) out]"
  using assms by (simp add: external_stage_def Let_def)

lemma parse_redirections_keeps:
  assumes "parse_redirections ts w = (Some r, w')" "k < length (objs w)"
  shows "k < length (objs w')" "objs w' ! k = objs w ! k" "calls w' = calls w"
proof -
  obtain new where n: "objs w' = objs w @ new"
    using parse_redirections_objs(1)[OF assms(1)] by blast
  show "k < length (objs w')" "objs w' ! k = objs w ! k"
    using n assms(2) by (simp_all add: nth_append)
  show "calls w' = calls w"
    by (rule parse_redirections_frame(4)[OF assms(1)])
qed

lemma stage_reads_prev:
  assumes p: "parse_redirections c2 w = (Some r2, w2)" and c: "clean_tokens r2 = name2 # args2"
    and k: "k < length (objs w)"
    and o: "objs w ! k = \<lparr>f_kind = Temp, f_append = False, f_buf = out, f_pos = 0, f_closed = False\<rparr>"
  shows "is_builtin reg name2 \<Longrightarrow>
           calls (state_world (stage reg prog last2 c2 (Some (Obj k)) tc w)) =
             calls w @ [Builtin_call name2 args2 (universal_newlines out)]"
    and "\<not> is_builtin reg name2 \<Longrightarrow> find_executable (os w2) name2 = Some exe \<Longrightarrow> exe \<noteq> [] \<Longrightarrow>
           prog exe (name2 # args2) out (os w2) = Inr pr \<Longrightarrow>
           calls (state_world (stage reg prog last2 c2 (Some (Obj k)) tc w)) =
             calls w @ [Process_call exe (name2 # args2) out]"
proof -
  note keep = parse_redirections_keeps[OF p k]
  have o2: "objs w2 ! k = \<lparr>f_kind = Temp, f_append = False, f_buf = out, f_pos = 0, f_closed = False\<rparr>"
    using keep(2) o by simp
  {
    assume "is_builtin reg name2"
    then obtain b where b: "reg name2 = Some b"
      by (auto simp: is_builtin_def)
    show "calls (state_world (stage reg prog last2 c2 (Some (Obj k)) tc w)) =
             calls w @ [Builtin_call name2 args2 (universal_newlines out)]"
      using builtin_stage_reads_prev[where reg=reg and name=name2 and b=b, OF b keep(1) o2] p c
        \<open>is_builtin reg name2\<close> keep(3)
      by (simp add: stage_def Let_def)
  }
  {
    assume n: "\<not> is_builtin reg name2" and f: "find_executable (os w2) name2 = Some exe" "exe \<noteq> []"
      and pr: "prog exe (name2 # args2) out (os w2) = Inr pr"
    show "calls (state_world (stage reg prog last2 c2 (Some (Obj k)) tc w)) =
             calls w @ [Process_call exe (name2 # args2) out]"
      using external_stage_reads_prev[where prog=prog, OF f keep(1) o2 pr] p c n keep(3)
      by (simp add: stage_def Let_def)
  }
qed

lemma parse_redirections_plain:
  "\<forall>t\<in>set ts. t \<notin> set (stderr_ops @ stdout_ops) \<Longrightarrow>
   parse_redirections ts w =
     (Some \<lparr>clean_tokens = ts, stdout_dest = None, stderr_dest = None,
            file_out = None, file_err = None\<rparr>, w)"
proof -
  assume a: "\<forall>t\<in>set ts. t \<notin> set (stderr_ops @ stdout_ops)"
  have "first_present ops ts = None" if "set ops \<subseteq> set (stderr_ops @ stdout_ops)" for ops
    using that a by (induction ops) auto
  then have "first_present stderr_ops ts = None" "first_present stdout_ops ts = None"
    by simp_all
  then show ?thesis
    by (simp add: parse_redirections_def resolve_class_def)
qed

lemma stage_builtin_not_last:
  assumes a: "allocated w0 (sys_stderr w0)"
    and p: "parse_redirections c1 w0 = (Some r1, w1)"
    and c: "clean_tokens r1 = name1 # args1"
    and b: "reg name1 = Some b1"
    and s: "stage reg prog False c1 prev tc w0 = Running prev' tc' w'"
  shows "prev' = Some (Obj (length (objs w1))) \<and> length (objs w0) \<le> length (objs w1) \<and>
         tc' = tc @ opt_list (file_out r1) @ opt_list (file_err r1) @ [Obj (length (objs w1))] \<and>
         length (objs w1) < length (objs w') \<and>
         objs w' ! length (objs w1) =
           \<lparr>f_kind = Temp, f_append = False,
            f_buf = b_out (b1 args1 (stream_text (sys_stdin (rebind_stdin prev w1)) w1) (os w1)),
            f_pos = 0, f_closed = False\<rparr>"
proof -
  obtain new where n: "objs w1 = objs w0 @ new"
    using parse_redirections_objs(1)[OF p] by blast
  have a1: "allocated w1 (sys_stderr w1)"
    using a n parse_redirections_frame(3)[OF p] by (cases "sys_stderr w0") simp_all
  have bs: "builtin_stage reg False name1 args1 (stdout_dest r1) prev
              (tc @ opt_list (file_out r1) @ opt_list (file_err r1)) w1 = Running prev' tc' w'"
    using s p c b by (simp add: stage_def Let_def is_builtin_def)
  note nl = builtin_stage_not_last[where reg=reg and name=name1 and b=b1, OF b a1 bs]
  show ?thesis
    using nl n by simp
qed

lemma builtin_stage_grows:
  "builtin_stage reg is_last name args f_out prev tc w = Running prev' tc' w' \<Longrightarrow>
   length (objs w) \<le> length (objs w')"
  by (cases is_last)
     (auto simp: builtin_stage_def temporary_file_def Let_def case_prod_beta
           simp del: seek0.simps split: option.splits)

lemma external_stage_grows:
  "external_stage prog is_last name args f_out f_err prev tc w = Running prev' tc' w' \<Longrightarrow>
   length (objs w) \<le> length (objs w')"
  by (cases is_last)
     (auto simp: external_stage_def Let_def split: option.splits sum.splits if_splits)

lemma stage_grows:
  assumes "stage reg prog is_last c prev tc w = Running prev' tc' w'"
  shows "length (objs w) \<le> length (objs w')"
proof -
  obtain r w1 where p: "parse_redirections c w = (r, w1)"
    by (cases "parse_redirections c w")
  show ?thesis
  proof (cases r)
    case None
    then show ?thesis using assms p by (simp add: stage_def)
  next
    case (Some x)
    obtain new where n: "objs w1 = objs w @ new"
      using parse_redirections_objs(1)[OF p[unfolded Some]] by blast
    show ?thesis
    proof (cases "clean_tokens x")
      case Nil
      then show ?thesis using assms p Some by (simp add: stage_def)
    next
      case (Cons name args)
      have "length (objs w1) \<le> length (objs w')"
        using assms p Some Cons
        by (auto simp: stage_def Let_def dest: builtin_stage_grows external_stage_grows
                 split: if_splits)
      then show ?thesis using n by simp
    qed
  qed
qed

lemma run_stages_grows:
  "run_stages reg prog n i cs (Running prev tc w) = Running prev' tc' w' \<Longrightarrow>
   length (objs w) \<le> length (objs w')"
proof (induction cs arbitrary: i prev tc w)
  case Nil
  then show ?case by simp
next
  case (Cons c cs)
  show ?case
  proof (cases "stage reg prog (i = n - 1) c prev tc w")
    case (Running p t v)
    then have "run_stages reg prog n (Suc i) cs (Running p t v) = Running prev' tc' w'"
      using Cons.prems by simp
    then have "length (objs v) \<le> length (objs w')"
      by (rule Cons.IH)
    then show ?thesis using stage_grows[OF Running] by simp
  next
    case (Broke t v)
    then show ?thesis using Cons.prems by simp
  next
    case (Raised e v)
    then show ?thesis using Cons.prems by simp
  qed
qed

lemma execute_calls_more: "\<exists>more. calls (fst (execute reg name args w)) = calls w @ more"
  by (simp add: execute_def Let_def split: option.split)

lemma builtin_stage_calls_more:
  "\<exists>more. calls (state_world (builtin_stage reg is_last name args f_out prev tc w)) = calls w @ more"
proof -
  have "\<exists>more. calls (fst (execute reg name args v)) = calls w @ more" if "calls v = calls w" for v
    using execute_calls_more[of reg name args v] that by simp
  then show ?thesis
    by (cases is_last)
       (simp_all add: builtin_stage_def temporary_file_def Let_def case_prod_beta
          split: option.split)
qed

lemma external_stage_calls_more:
  "\<exists>more. calls (state_world (external_stage prog is_last name args f_out f_err prev tc w))
     = calls w @ more"
  by (simp add: external_stage_def Let_def split: option.split sum.split)

lemma stage_calls_more:
  "\<exists>more. calls (state_world (stage reg prog is_last c prev tc w)) = calls w @ more"
proof -
  obtain r w1 where p: "parse_redirections c w = (r, w1)"
    by (cases "parse_redirections c w")
  have c1: "calls w1 = calls w"
    by (rule parse_redirections_frame(4)[OF p])
  show ?thesis
    using p c1 builtin_stage_calls_more[of reg is_last _ _ _ prev _ w1]
      external_stage_calls_more[of prog is_last _ _ _ _ prev _ w1]
    by (simp add: stage_def Let_def split: option.split list.split)
qed

lemma run_stages_calls_more:
  "\<exists>more. calls (state_world (run_stages reg prog n i cs s)) = calls (state_world s) @ more"
proof (induction cs arbitrary: i s)
  case Nil
  then show ?case by simp
next
  case (Cons c cs)
  show ?case
  proof (cases s)
    case (Running prev tc w)
    obtain m1 where 1: "calls (state_world (stage reg prog (i = n - 1) c prev tc w)) = calls w @ m1"
      using stage_calls_more by blast
    obtain m2 where 2: "calls (state_world (run_stages reg prog n (Suc i) cs
        (stage reg prog (i = n - 1) c prev tc w))) =
        calls (state_world (stage reg prog (i = n - 1) c prev tc w)) @ m2"
      using Cons.IH by blast
    show ?thesis using Running 1 2 by simp
  qed simp_all
qed

lemma run_pipeline_calls:
  "cs \<noteq> [] \<Longrightarrow>
   calls (fst (run_pipeline reg prog cs w)) =
     calls (state_world (run_stages reg prog (length cs) 0 cs (Running None [] w)))"
  by (cases "run_stages reg prog (length cs) 0 cs (Running None [] w)")
     (simp_all add: run_pipeline_def)

section \<open>Claims on the stages of a pipeline\<close>

text \<open>
  C4, as amended. Take a pipeline \<open>pre @ c1 # c2 # post\<close> whose loop reaches the stage \<open>c1\<close>,
  a built-in that is not the last stage, and goes on after it. The output of \<open>c1\<close> went to a
  temporary buffer made in that stage (an object that did not exist before), which holds
  exactly what the built-in printed on \<open>sys.stdout\<close>, is rewound to its start, is open, and
  is the \<open>prev_stdin\<close> the loop hands to the stage \<open>c2\<close>; it is put on the list of handles
  to close. The descriptor of the buffer gives exactly the printed text, and this is what
  an external command \<open>c2\<close> that is found and spawned is called on. A built-in \<open>c2\<close> reads
  the buffer through the text layer of the temporary file, so it is called on the printed
  text with every \<open>\r\n\<close> and every other \<open>\r\<close> read as \<open>\n\<close>: on exactly the printed text
  when that holds no carriage return. The call of \<open>c2\<close> is the next call of the loop, and
  the calls of the whole pipeline start with the calls up to it.
\<close>

theorem builtin_output_feeds_next_stage:
  assumes a: "allocated w0 (sys_stderr w0)"
    and n: "n = length (pre @ c1 # c2 # post)"
    and before: "run_stages reg prog n 0 pre (Running None [] w0) = Running prev tc w"
    and p: "parse_redirections c1 w = (Some r1, w1)"
    and c: "clean_tokens r1 = name1 # args1"
    and b: "reg name1 = Some b1"
    and s: "run_stages reg prog n 0 (pre @ [c1]) (Running None [] w0) = Running prev' tc' w'"
    and out: "out = b_out (b1 args1 (stream_text (sys_stdin (rebind_stdin prev w1)) w1) (os w1))"
  shows "prev' = Some (Obj (length (objs w1))) \<and> length (objs w) \<le> length (objs w1) \<and>
         tc' = tc @ opt_list (file_out r1) @ opt_list (file_err r1) @ [Obj (length (objs w1))] \<and>
         objs w' ! length (objs w1) =
           \<lparr>f_kind = Temp, f_append = False, f_buf = out, f_pos = 0, f_closed = False\<rparr> \<and>
         stream_raw (Obj (length (objs w1))) w' = out \<and>
         stream_text (Obj (length (objs w1))) w' = universal_newlines out \<and>
         (carriage \<notin> set out \<longrightarrow> universal_newlines out = out) \<and>
         (\<forall>r2 w2 name2 args2.
            parse_redirections c2 w' = (Some r2, w2) \<and> clean_tokens r2 = name2 # args2 \<longrightarrow>
            (is_builtin reg name2 \<longrightarrow>
               calls (state_world (run_stages reg prog n 0 (pre @ [c1, c2]) (Running None [] w0))) =
                 calls w' @ [Builtin_call name2 args2 (universal_newlines out)]) \<and>
            (\<not> is_builtin reg name2 \<longrightarrow>
               (\<forall>exe pr. find_executable (os w2) name2 = Some exe \<and> exe \<noteq> [] \<and>
                          prog exe (name2 # args2) out (os w2) = Inr pr \<longrightarrow>
                  calls (state_world (run_stages reg prog n 0 (pre @ [c1, c2]) (Running None [] w0))) =
                    calls w' @ [Process_call exe (name2 # args2) out]))) \<and>
         (\<exists>more. calls (fst (run_pipeline reg prog (pre @ c1 # c2 # post) w0)) =
            calls (state_world (run_stages reg prog n 0 (pre @ [c1, c2]) (Running None [] w0))) @ more)"
proof -
  let ?k = "length (objs w1)"
  let ?s0 = "Running None [] w0"
  let ?l2 = "Suc (length pre) = n - 1"
  have aw: "allocated w (sys_stderr w)"
  proof -
    have "sys_stderr w = sys_stderr w0"
      using run_stages_world_std[OF before] by (simp add: std_of_def)
    moreover have "length (objs w0) \<le> length (objs w)"
      by (rule run_stages_grows[OF before])
    ultimately show ?thesis
      using a by (cases "sys_stderr w0") simp_all
  qed
  have nl: "(length pre = n - 1) = False"
    using n by simp
  have "run_stages reg prog n 0 (pre @ [c1]) ?s0 = stage reg prog (length pre = n - 1) c1 prev tc w"
    by (simp add: run_stages_append before)
  then have st1: "stage reg prog False c1 prev tc w = Running prev' tc' w'"
    using s nl by simp
  note prod = stage_builtin_not_last[where reg=reg and ?name1.0=name1 and ?b1.0=b1, OF aw p c b st1]
  have pv: "prev' = Some (Obj ?k)"
    and fresh: "length (objs w) \<le> ?k"
    and tc: "tc' = tc @ opt_list (file_out r1) @ opt_list (file_err r1) @ [Obj ?k]"
    and k: "?k < length (objs w')"
    and o: "objs w' ! ?k =
      \<lparr>f_kind = Temp, f_append = False, f_buf = out, f_pos = 0, f_closed = False\<rparr>"
    using prod out by simp_all
  have raw: "stream_raw (Obj ?k) w' = out"
    by (rule stream_temp(1)[OF k o])
  have cooked: "stream_text (Obj ?k) w' = universal_newlines out"
    by (rule stream_temp(2)[OF k o])
  have plain: "carriage \<notin> set out \<longrightarrow> universal_newlines out = out"
    by (simp add: universal_newlines_plain)
  have two: "run_stages reg prog n 0 (pre @ [c1, c2]) ?s0 =
      stage reg prog ?l2 c2 (Some (Obj ?k)) tc' w'"
  proof -
    have "run_stages reg prog n 0 ((pre @ [c1]) @ [c2]) ?s0 =
        run_stages reg prog n (0 + length (pre @ [c1])) [c2] (run_stages reg prog n 0 (pre @ [c1]) ?s0)"
      by (rule run_stages_append)
    then show ?thesis
      using s pv by simp
  qed
  have next_stage: "(is_builtin reg name2 \<longrightarrow>
               calls (state_world (run_stages reg prog n 0 (pre @ [c1, c2]) ?s0)) =
                 calls w' @ [Builtin_call name2 args2 (universal_newlines out)]) \<and>
            (\<not> is_builtin reg name2 \<longrightarrow>
               (\<forall>exe pr. find_executable (os w2) name2 = Some exe \<and> exe \<noteq> [] \<and>
                          prog exe (name2 # args2) out (os w2) = Inr pr \<longrightarrow>
                  calls (state_world (run_stages reg prog n 0 (pre @ [c1, c2]) ?s0)) =
                    calls w' @ [Process_call exe (name2 # args2) out]))"
    if "parse_redirections c2 w' = (Some r2, w2)" "clean_tokens r2 = name2 # args2"
    for r2 w2 name2 args2
    unfolding two using stage_reads_prev[OF that k o] by blast
  have whole: "\<exists>more. calls (fst (run_pipeline reg prog (pre @ c1 # c2 # post) w0)) =
      calls (state_world (run_stages reg prog n 0 (pre @ [c1, c2]) ?s0)) @ more"
  proof -
    have "run_stages reg prog n 0 ((pre @ [c1, c2]) @ post) ?s0 =
        run_stages reg prog n (0 + length (pre @ [c1, c2])) post
          (run_stages reg prog n 0 (pre @ [c1, c2]) ?s0)"
      by (rule run_stages_append)
    then have "\<exists>more. calls (state_world (run_stages reg prog n 0 (pre @ c1 # c2 # post) ?s0)) =
        calls (state_world (run_stages reg prog n 0 (pre @ [c1, c2]) ?s0)) @ more"
      using run_stages_calls_more[of reg prog n "0 + length (pre @ [c1, c2])" post
          "run_stages reg prog n 0 (pre @ [c1, c2]) ?s0"]
      by simp
    moreover have "calls (fst (run_pipeline reg prog (pre @ c1 # c2 # post) w0)) =
        calls (state_world (run_stages reg prog n 0 (pre @ c1 # c2 # post) ?s0))"
      using run_pipeline_calls[of "pre @ c1 # c2 # post" reg prog w0] n by simp
    ultimately show ?thesis by simp
  qed
  show ?thesis
    using pv fresh tc o raw cooked plain next_stage whole by simp
qed

theorem builtin_output_feeds_next_stage_witness:
  "allocated (boot empty_env) (sys_stderr (boot empty_env)) \<and>
   registry quiet ''echo'' = Some cmd_echo \<and>
   b_out (cmd_echo [''hello''] [] empty_env) = ''hello'' @ [newline] \<and>
   carriage \<notin> set (''hello'' @ [newline]) \<and>
   (case run_stages (registry quiet) idle 4 0 [[''echo'', ''a'']]
           (Running None [] (boot empty_env)) of
      Running p t w \<Rightarrow> p = Some (Obj 0) \<and> t = [Obj 0] \<and> length (objs w) = 1
    | Broke t w \<Rightarrow> False
    | Raised e w \<Rightarrow> False) \<and>
   (case run_stages (registry quiet) idle 4 0 [[''echo'', ''a''], [''echo'', ''hello'']]
           (Running None [] (boot empty_env)) of
      Running p t w \<Rightarrow>
        p = Some (Obj 1) \<and> t = [Obj 0, Obj 1] \<and>
        objs w ! 1 = \<lparr>f_kind = Temp, f_append = False, f_buf = ''hello'' @ [newline],
                       f_pos = 0, f_closed = False\<rparr>
    | Broke t w \<Rightarrow> False
    | Raised e w \<Rightarrow> False) \<and>
   is_builtin (registry quiet) ''grep'' \<and>
   calls (state_world (run_stages (registry quiet) idle 4 0
      [[''echo'', ''a''], [''echo'', ''hello''], [''grep'', ''ell'']]
      (Running None [] (boot empty_env)))) =
     [Builtin_call ''echo'' [''a''] [], Builtin_call ''echo'' [''hello''] (''a'' @ [newline]),
      Builtin_call ''grep'' [''ell''] (''hello'' @ [newline])] \<and>
   take 3 (calls (fst (run_pipeline (registry quiet) idle
      [[''echo'', ''a''], [''echo'', ''hello''], [''grep'', ''ell''], [''grep'', ''h'']]
      (boot empty_env)))) =
     [Builtin_call ''echo'' [''a''] [], Builtin_call ''echo'' [''hello''] (''a'' @ [newline]),
      Builtin_call ''grep'' [''ell''] (''hello'' @ [newline])] \<and>
   \<not> is_builtin (registry quiet) ''tool'' \<and>
   find_executable (empty_env\<lparr>files := [''/bin/tool'' \<mapsto> []]\<rparr>) ''tool'' = Some ''/bin/tool'' \<and>
   calls (state_world (run_stages (registry quiet) idle 2 0 [[''echo'', ''hello''], [''tool'']]
      (Running None [] (boot (empty_env\<lparr>files := [''/bin/tool'' \<mapsto> []]\<rparr>))))) =
     [Builtin_call ''echo'' [''hello''] [],
      Process_call ''/bin/tool'' [''tool''] (''hello'' @ [newline])]"
proof -
  let ?R = "registry quiet"
  let ?B = "boot empty_env"
  let ?E = "empty_env\<lparr>files := [''/bin/tool'' \<mapsto> []]\<rparr>"
  let ?r1 = "\<lparr>clean_tokens = [''echo'', ''hello''], stdout_dest = None, stderr_dest = None,
            file_out = None, file_err = None\<rparr>"
  let ?r2 = "\<lparr>clean_tokens = [''grep'', ''ell''], stdout_dest = None, stderr_dest = None,
            file_out = None, file_err = None\<rparr>"
  let ?r3 = "\<lparr>clean_tokens = [''tool''], stdout_dest = None, stderr_dest = None,
            file_out = None, file_err = None\<rparr>"
  let ?out = "''hello'' @ [newline]"
  have a: "allocated ?B (sys_stderr ?B)"
    by (simp add: boot_def)
  have b: "?R ''echo'' = Some cmd_echo"
    by (simp add: registry_def)
  have g: "is_builtin ?R ''grep''"
    by (simp add: registry_def is_builtin_def)
  have e: "b_out (cmd_echo [''hello''] inp env) = ?out" for inp env
    by (simp add: cmd_echo_def SPACE_def)
  have nc: "carriage \<notin> set ?out"
    by (simp add: carriage_def newline_def)
  have c: "clean_tokens ?r1 = ''echo'' # [''hello'']"
    by simp
  have c2: "clean_tokens ?r2 = ''grep'' # [''ell'']"
    by simp
  have c3: "clean_tokens ?r3 = ''tool'' # []"
    by simp
  have plain: "parse_redirections ts v =
      (Some \<lparr>clean_tokens = ts, stdout_dest = None, stderr_dest = None,
             file_out = None, file_err = None\<rparr>, v)"
    if "ts \<in> {[''echo'', ''hello''], [''grep'', ''ell''], [''tool'']}" for ts v
    using that by (intro parse_redirections_plain) (auto simp: stderr_ops_def stdout_ops_def)

  have n: "(4::nat) =
      length ([[''echo'', ''a'']] @ [''echo'', ''hello''] # [''grep'', ''ell''] # [[''grep'', ''h'']])"
    by simp
  have s0: "case run_stages ?R idle 4 0 [[''echo'', ''a'']] (Running None [] ?B) of
      Running p t w \<Rightarrow>
        p = Some (Obj 0) \<and> t = [Obj 0] \<and> length (objs w) = 1
    | Broke t w \<Rightarrow> False
    | Raised e w \<Rightarrow> False"
    by code_simp
  then obtain W0 where
    before: "run_stages ?R idle 4 0 [[''echo'', ''a'']] (Running None [] ?B)
          = Running (Some (Obj 0)) [Obj 0] W0"
    by (auto split: loop_state.splits)
  have s1: "case run_stages ?R idle 4 0 [[''echo'', ''a''], [''echo'', ''hello'']]
           (Running None [] ?B) of
      Running p t w \<Rightarrow>
        p = Some (Obj 1) \<and> t = [Obj 0, Obj 1] \<and>
        objs w ! 1 = \<lparr>f_kind = Temp, f_append = False, f_buf = ''hello'' @ [newline],
                       f_pos = 0, f_closed = False\<rparr> \<and>
        calls w = [Builtin_call ''echo'' [''a''] [],
                   Builtin_call ''echo'' [''hello''] (''a'' @ [newline])]
    | Broke t w \<Rightarrow> False
    | Raised e w \<Rightarrow> False"
    by code_simp
  then obtain W1 where
    s: "run_stages ?R idle 4 0 ([[''echo'', ''a'']] @ [[''echo'', ''hello'']]) (Running None [] ?B)
          = Running (Some (Obj 1)) [Obj 0, Obj 1] W1" and
    cw: "calls W1 = [Builtin_call ''echo'' [''a''] [],
                     Builtin_call ''echo'' [''hello''] (''a'' @ [newline])]" and
    ow: "objs W1 ! 1 = \<lparr>f_kind = Temp, f_append = False, f_buf = ''hello'' @ [newline],
                         f_pos = 0, f_closed = False\<rparr>"
    by (auto split: loop_state.splits)
  have out: "?out = b_out (cmd_echo [''hello'']
      (stream_text (sys_stdin (rebind_stdin (Some (Obj 0)) W0)) W0) (os W0))"
    by (simp only: e)
  note th = builtin_output_feeds_next_stage[where reg = ?R and prog = idle
      and ?c2.0 = "[''grep'', ''ell'']" and post = "[[''grep'', ''h'']]",
      OF a n before plain c b s out]
  have next_stage: "\<forall>r2 w2 name2 args2.
      parse_redirections [''grep'', ''ell''] W1 = (Some r2, w2) \<and> clean_tokens r2 = name2 # args2 \<longrightarrow>
      (is_builtin ?R name2 \<longrightarrow>
         calls (state_world (run_stages ?R idle 4 0
            ([[''echo'', ''a'']] @ [[''echo'', ''hello''], [''grep'', ''ell'']])
            (Running None [] ?B))) =
           calls W1 @ [Builtin_call name2 args2 (universal_newlines ?out)])"
    using th[THEN conjunct2, THEN conjunct2, THEN conjunct2, THEN conjunct2, THEN conjunct2,
        THEN conjunct2, THEN conjunct2, THEN conjunct1]
    by blast
  have un: "universal_newlines ?out = ?out"
    using th[THEN conjunct2, THEN conjunct2, THEN conjunct2, THEN conjunct2, THEN conjunct2,
        THEN conjunct2, THEN conjunct1] nc
    by blast
  have three: "calls (state_world (run_stages ?R idle 4 0
      [[''echo'', ''a''], [''echo'', ''hello''], [''grep'', ''ell'']] (Running None [] ?B))) =
      calls W1 @ [Builtin_call ''grep'' [''ell''] ?out]"
    using next_stage[rule_format, of ?r2 W1 "''grep''" "[''ell'']"] plain[of "[''grep'', ''ell'']" W1]
      c2 g un
    by simp
  obtain more where whole: "calls (fst (run_pipeline ?R idle
      ([[''echo'', ''a'']] @ [''echo'', ''hello''] # [''grep'', ''ell''] # [[''grep'', ''h'']]) ?B)) =
      calls (state_world (run_stages ?R idle 4 0
        ([[''echo'', ''a'']] @ [[''echo'', ''hello''], [''grep'', ''ell'']]) (Running None [] ?B))) @ more"
    using th[THEN conjunct2, THEN conjunct2, THEN conjunct2, THEN conjunct2, THEN conjunct2,
        THEN conjunct2, THEN conjunct2, THEN conjunct2]
    by blast
  have three': "calls (state_world (run_stages ?R idle 4 0
      [[''echo'', ''a''], [''echo'', ''hello''], [''grep'', ''ell'']] (Running None [] ?B))) =
     [Builtin_call ''echo'' [''a''] [], Builtin_call ''echo'' [''hello''] (''a'' @ [newline]),
      Builtin_call ''grep'' [''ell''] ?out]"
    using three cw by simp
  have four: "take 3 (calls (fst (run_pipeline ?R idle
      [[''echo'', ''a''], [''echo'', ''hello''], [''grep'', ''ell''], [''grep'', ''h'']] ?B))) =
     [Builtin_call ''echo'' [''a''] [], Builtin_call ''echo'' [''hello''] (''a'' @ [newline]),
      Builtin_call ''grep'' [''ell''] ?out]"
    using whole three' by simp

  have t: "\<not> is_builtin ?R ''tool''"
    by (simp add: registry_def is_builtin_def)
  have f: "find_executable ?E ''tool'' = Some ''/bin/tool''"
    by code_simp
  have a': "allocated (boot ?E) (sys_stderr (boot ?E))"
    by (simp add: boot_def)
  have n': "(2::nat) = length ([] @ [''echo'', ''hello''] # [''tool''] # [])"
    by simp
  have before': "run_stages ?R idle 2 0 [] (Running None [] (boot ?E)) = Running None [] (boot ?E)"
    by simp
  have s2: "case run_stages ?R idle 2 0 [[''echo'', ''hello'']] (Running None [] (boot ?E)) of
      Running p t w \<Rightarrow>
        p = Some (Obj 0) \<and> t = [Obj 0] \<and> calls w = [Builtin_call ''echo'' [''hello''] []] \<and>
        find_executable (os w) ''tool'' = Some ''/bin/tool''
    | Broke t w \<Rightarrow> False
    | Raised e w \<Rightarrow> False"
    by code_simp
  then obtain W2 where
    s': "run_stages ?R idle 2 0 ([] @ [[''echo'', ''hello'']]) (Running None [] (boot ?E))
          = Running (Some (Obj 0)) [Obj 0] W2" and
    cw': "calls W2 = [Builtin_call ''echo'' [''hello''] []]" and
    f': "find_executable (os W2) ''tool'' = Some ''/bin/tool''"
    by (auto split: loop_state.splits)
  have out': "?out = b_out (cmd_echo [''hello'']
      (stream_text (sys_stdin (rebind_stdin None (boot ?E))) (boot ?E)) (os (boot ?E)))"
    by (simp only: e)
  have spawned: "idle ''/bin/tool'' (''tool'' # []) ?out (os W2) =
      Inr \<lparr>p_out = [], p_err = [], p_env = os W2\<rparr>"
    by (simp add: idle_def)
  note th' = builtin_output_feeds_next_stage[where reg = ?R and prog = idle
      and ?c2.0 = "[''tool'']" and post = "[]",
      OF a' n' before' plain c b s' out']
  have next_stage': "\<forall>r2 w2 name2 args2.
      parse_redirections [''tool''] W2 = (Some r2, w2) \<and> clean_tokens r2 = name2 # args2 \<longrightarrow>
      (\<not> is_builtin ?R name2 \<longrightarrow>
         (\<forall>exe pr. find_executable (os w2) name2 = Some exe \<and> exe \<noteq> [] \<and>
                    idle exe (name2 # args2) ?out (os w2) = Inr pr \<longrightarrow>
         calls (state_world (run_stages ?R idle 2 0 ([] @ [[''echo'', ''hello''], [''tool'']])
            (Running None [] (boot ?E)))) =
           calls W2 @ [Process_call exe (name2 # args2) ?out]))"
    using th'[THEN conjunct2, THEN conjunct2, THEN conjunct2, THEN conjunct2, THEN conjunct2,
        THEN conjunct2, THEN conjunct2, THEN conjunct1]
    by blast
  have two: "calls (state_world (run_stages ?R idle 2 0 [[''echo'', ''hello''], [''tool'']]
      (Running None [] (boot ?E)))) =
     [Builtin_call ''echo'' [''hello''] [], Process_call ''/bin/tool'' [''tool''] ?out]"
    using next_stage'[rule_format, of ?r3 W2 "''tool''" "[]" "''/bin/tool''"
        "\<lparr>p_out = [], p_err = [], p_env = os W2\<rparr>"]
      plain[of "[''tool'']" W2] c3 t f' spawned cw'
    by simp
  have s1': "case run_stages ?R idle 4 0 [[''echo'', ''a''], [''echo'', ''hello'']]
           (Running None [] ?B) of
      Running p t w \<Rightarrow>
        p = Some (Obj 1) \<and> t = [Obj 0, Obj 1] \<and>
        objs w ! 1 = \<lparr>f_kind = Temp, f_append = False, f_buf = ''hello'' @ [newline],
                       f_pos = 0, f_closed = False\<rparr>
    | Broke t w \<Rightarrow> False
    | Raised e w \<Rightarrow> False"
    using s ow by simp
  show ?thesis
    using a b e nc s0 s1' g three' four t f two
    by (simp only: simp_thms)
qed

text \<open>
  C4 as stated fails on the line \<open>echo 'a\rb' | grep b\<close>, where \<open>\r\<close> stands for one
  carriage return: \<open>echo\<close> emits \<open>a\rb\n\<close>, and \<open>grep\<close>, the next stage, is called on
  \<open>a\nb\n\<close>, which is what the temporary file gives when it is read in text mode. So the
  pipeline prints the line \<open>b\<close> alone, where the emitted text has the one line \<open>a\rb\<close>.
\<close>

theorem builtin_output_feeds_next_stage_counterexample:
  "b_out (cmd_echo [[CHR ''a'', carriage, CHR ''b'']] [] empty_env) =
     [CHR ''a'', carriage, CHR ''b'', newline] \<and>
   calls (fst (process_line (registry quiet) idle
      (''echo '' @ [squote, CHR ''a'', carriage, CHR ''b'', squote] @ '' | grep b'')
      (boot empty_env))) =
     [Builtin_call ''echo'' [[CHR ''a'', carriage, CHR ''b'']] [],
      Builtin_call ''grep'' [''b''] [CHR ''a'', newline, CHR ''b'', newline]] \<and>
   [CHR ''a'', newline, CHR ''b'', newline] \<noteq> [CHR ''a'', carriage, CHR ''b'', newline] \<and>
   console_out (fst (process_line (registry quiet) idle
      (''echo '' @ [squote, CHR ''a'', carriage, CHR ''b'', squote] @ '' | grep b'')
      (boot empty_env))) = [CHR ''b'', newline]"
  by code_simp

end
